theory Spec2Isabelle
  imports Complex_Main
begin

section \<open>Beat detection utilities (util.py)\<close>

text \<open>
  The module is a thin layer over external libraries (mirdata, librosa, mir_eval, numpy).
  Its own logic is embedded here function by function, under the source's names. The
  external calls are parameters of the functions that make them. Python dictionaries are
  association lists in insertion order. Python integers are unbounded integers; numpy
  holds integers in 64 bits and calculates with float64, and both are embedded with
  their conversions, their wrap-around and their rounding.
\<close>

subsection \<open>Values\<close>

text \<open>
  Exceptions. A missing dictionary key raises \<open>KeyError\<close>; a Python integer that does
  not fit the numpy type it is converted to raises \<open>OverflowError\<close>; whatever an
  external library raises is carried as \<open>LibraryError\<close>.
\<close>

datatype error = KeyError string | OverflowError | LibraryError string

text \<open>
  Integers. \<open>np.arange\<close> and \<open>np.where\<close> give int64 arrays. In the product of such an
  array by a Python integer, the integer is converted to int64, which raises
  \<open>OverflowError\<close> when it is out of range; the products themselves wrap around modulo
  \<open>2^64\<close> without notice.
\<close>

definition int64_range :: "int \<Rightarrow> bool" where
  "int64_range x \<longleftrightarrow> - (2 ^ 63) \<le> x \<and> x < 2 ^ 63"

definition to_int64 :: "int \<Rightarrow> error + int" where
  "to_int64 x = (if int64_range x then Inr x else Inl OverflowError)"

definition wrap64 :: "int \<Rightarrow> int" where
  "wrap64 x = (x + 2 ^ 63) mod 2 ^ 64 - 2 ^ 63"

text \<open>
  Floats. A float64 is a finite value, an infinity or not-a-number. The finite values are
  real numbers here (the two zeros of float64, which compare equal, are both 0), and the
  rounding of a real number to the float64 nearest to it is the parameter \<open>rnd\<close> of
  every function that calculates with floats. Converting a Python integer to float64
  rounds it; from \<open>2^1024 - 2^970\<close> on in magnitude the rounded value would not be
  finite, and the conversion raises \<open>OverflowError\<close>.
\<close>

datatype npfloat = Fin real | PosInf | NegInf | NaN

definition float64_range :: "int \<Rightarrow> bool" where
  "float64_range x \<longleftrightarrow> \<bar>x\<bar> < 2 ^ 1024 - 2 ^ 970"

definition to_float64 :: "(real \<Rightarrow> real) \<Rightarrow> int \<Rightarrow> error + real" where
  "to_float64 rnd x = (if float64_range x then Inr (rnd (real_of_int x)) else Inl OverflowError)"

text \<open>
  The quotient of an int64 array element \<open>a\<close> by a float64 \<open>y\<close>: the element is
  converted to float64 and the quotient is rounded. Dividing by zero gives a warning and
  no exception: \<open>0 / 0\<close> is \<open>nan\<close>, a positive value over zero is \<open>inf\<close>, a negative
  one \<open>-inf\<close>. The divisors of this module are converted integers, so that a quotient
  is at most \<open>2^63\<close> in magnitude and never overflows.
\<close>

definition true_divide :: "(real \<Rightarrow> real) \<Rightarrow> int \<Rightarrow> real \<Rightarrow> npfloat" where
  "true_divide rnd a y =
     (let x = rnd (real_of_int a)
      in if y \<noteq> 0 then Fin (rnd (x / y))
         else if x = 0 then NaN
         else if 0 < x then PosInf
         else NegInf)"

text \<open>The comparisons \<open><\<close> and \<open><=\<close> of floats: false whenever an operand is \<open>nan\<close>.\<close>

fun np_less :: "npfloat \<Rightarrow> npfloat \<Rightarrow> bool" where
  "np_less (Fin x) (Fin y) = (x < y)"
| "np_less NegInf (Fin y) = True"
| "np_less NegInf PosInf = True"
| "np_less (Fin x) PosInf = True"
| "np_less _ _ = False"

fun np_le :: "npfloat \<Rightarrow> npfloat \<Rightarrow> bool" where
  "np_le (Fin x) (Fin y) = (x \<le> y)"
| "np_le NegInf (Fin y) = True"
| "np_le NegInf NegInf = True"
| "np_le NegInf PosInf = True"
| "np_le (Fin x) PosInf = True"
| "np_le PosInf PosInf = True"
| "np_le _ _ = False"

text \<open>\<open>np.arange(n)\<close>: the integers \<open>0, 1, ..., n - 1\<close>.\<close>

definition arange :: "nat \<Rightarrow> int list" where
  "arange n = map int [0..<n]"

subsection \<open>Dictionaries and tracks\<close>

text \<open>
  A Python dictionary keeps its entries in insertion order and has each key once: an
  association list whose keys are distinct. \<open>d[k]\<close> raises \<open>KeyError\<close> on a missing key;
  \<open>d[k] = v\<close> replaces the value of a key that is present, in its place, and appends a
  new entry otherwise; iterating over \<open>d\<close> yields the keys in order.
\<close>

type_synonym ('k, 'v) dict = "('k \<times> 'v) list"

definition dict_keys :: "('k, 'v) dict \<Rightarrow> 'k list" where
  "dict_keys d = map fst d"

definition dict_get :: "(string, 'v) dict \<Rightarrow> string \<Rightarrow> error + 'v" where
  "dict_get d k = (case map_of d k of None \<Rightarrow> Inl (KeyError k) | Some v \<Rightarrow> Inr v)"

fun dict_set :: "('k, 'v) dict \<Rightarrow> 'k \<Rightarrow> 'v \<Rightarrow> ('k, 'v) dict" where
  "dict_set [] k v = [(k, v)]"
| "dict_set ((k', v') # d) k v =
     (if k' = k then (k', v) # d else (k', v') # dict_set d k v)"

text \<open>
  A track of the dataset, with the attributes the module reads: \<open>beats.times\<close>,
  \<open>genre\<close> and \<open>tempo\<close>. Beat times, tempi and scores are Python floats, finite
  float64 values that the module passes on and never calculates with: they are real
  numbers here.
\<close>

record track =
  beats_times :: "real list"
  genre :: string
  tempo :: real

subsection \<open>Dataset loader\<close>

text \<open>
  \<^verbatim>\<open>
  def load_data(dataset_name, data_home, dataset_version='mini'):
      dataset = mirdata.initialize(dataset_name = 'gtzan_genre', data_home = data_home,
                                   version = dataset_version)
      return dataset
  \<close>
  \<open>mirdata.initialize\<close> is the parameter \<open>initialize\<close>, applied to the dataset name,
  the root and the version; what it returns (a handle, or its failure) is returned as it is.
\<close>

definition load_data :: "(string \<Rightarrow> string \<Rightarrow> string \<Rightarrow> 'd) \<Rightarrow> string \<Rightarrow> string \<Rightarrow> string \<Rightarrow> 'd" where
  "load_data initialize dataset_name data_home dataset_version =
     (let dataset = initialize ''gtzan_genre'' data_home dataset_version
      in dataset)"

definition dataset_version_default :: string where
  "dataset_version_default = ''mini''"

subsection \<open>Beat estimator\<close>

text \<open>
  \<^verbatim>\<open>
  def estimate_beats_spectral_flux(audio_path, hop_length=512):
      y, sr = librosa.load(audio_path, sr = None)
      activation = librosa.onset.onset_strength(y=y, sr=sr, hop_length = hop_length)
      plp = librosa.beat.plp(y=y, sr=sr, hop_length = hop_length, onset_envelope = activation)
      beat_plp = librosa.util.localmax(plp)
      beat_plp = np.where(beat_plp)[0]
      beat_times = librosa.frames_to_time(beat_plp, sr=sr, hop_length=hop_length)
      return beat_times, activation
  \<close>
  The signal processing is librosa's: decoding the file, the onset strength, the
  predominant local pulse and the detector of local maxima are the fields of a record of
  collaborators. The first three may raise, and what they raise is passed on.
\<close>

record librosa =
  lr_load :: "string \<Rightarrow> error + (real list \<times> int)"
  lr_onset_strength :: "real list \<Rightarrow> int \<Rightarrow> int \<Rightarrow> error + real list"
  lr_plp :: "real list \<Rightarrow> int \<Rightarrow> int \<Rightarrow> real list \<Rightarrow> error + real list"
  lr_localmax :: "real list \<Rightarrow> bool list"

text \<open>\<open>np.where(flags)[0]\<close>: the indices at which a boolean array holds, in increasing order.\<close>

definition where_true :: "bool list \<Rightarrow> nat list" where
  "where_true flags = filter (\<lambda>i. flags ! i) [0..<length flags]"

text \<open>
  The conversion of frames to seconds is arithmetic, written out from librosa:
  \<^verbatim>\<open>
  def frames_to_time(frames, *, sr=22050, hop_length=512, n_fft=None):
      samples = frames_to_samples(frames, hop_length=hop_length, n_fft=n_fft)
      return samples_to_time(samples, sr=sr)
  def frames_to_samples(frames, *, hop_length=512, n_fft=None):
      offset = 0
      ...
      return (np.asanyarray(frames) * hop_length + offset).astype(int)
  def samples_to_time(samples, *, sr=22050):
      return np.asanyarray(samples) / float(sr)
  \<close>
  Frame \<open>f\<close> starts at sample \<open>f * hop_length\<close>, an int64 product, and the sample is
  divided by the rate as a float.
\<close>

definition frames_to_time :: "(real \<Rightarrow> real) \<Rightarrow> nat list \<Rightarrow> int \<Rightarrow> int \<Rightarrow> error + npfloat list" where
  "frames_to_time rnd frames sr hop_length =
     (case to_int64 hop_length of
        Inl e \<Rightarrow> Inl e
      | Inr h \<Rightarrow>
          (let samples = map (\<lambda>f. wrap64 (int f * h)) frames
           in case to_float64 rnd sr of
                Inl e \<Rightarrow> Inl e
              | Inr s \<Rightarrow> Inr (map (\<lambda>a. true_divide rnd a s) samples)))"

definition estimate_beats_spectral_flux ::
  "(real \<Rightarrow> real) \<Rightarrow> librosa \<Rightarrow> string \<Rightarrow> int \<Rightarrow> error + (npfloat list \<times> real list)" where
  "estimate_beats_spectral_flux rnd L audio_path hop_length =
     (case lr_load L audio_path of
        Inl e \<Rightarrow> Inl e
      | Inr (y, sr) \<Rightarrow>
          (case lr_onset_strength L y sr hop_length of
             Inl e \<Rightarrow> Inl e
           | Inr activation \<Rightarrow>
               (case lr_plp L y sr hop_length activation of
                  Inl e \<Rightarrow> Inl e
                | Inr plp \<Rightarrow>
                    (let beat_flags = lr_localmax L plp;
                         beat_plp = where_true beat_flags
                     in case frames_to_time rnd beat_plp sr hop_length of
                          Inl e \<Rightarrow> Inl e
                        | Inr beat_times \<Rightarrow> Inr (beat_times, activation)))))"

definition hop_length_default :: int where
  "hop_length_default = 512"

subsection \<open>Evaluator\<close>

text \<open>
  \<^verbatim>\<open>
  def evaluate_estimated_beats(data, estimated_beats):
      diction = {}
      for track_id in data:
          diction[track_id] = mir_eval.beat.f_measure(data[track_id].beats.times,
                                                      estimated_beats[track_id])
      return diction
  \<close>
  \<open>mir_eval.beat.f_measure\<close> is the parameter \<open>f_measure\<close>; it validates its
  arguments and may raise. Both lookups are evaluated before the call.
\<close>

fun evaluate_loop ::
  "(real list \<Rightarrow> 'b \<Rightarrow> error + real) \<Rightarrow> (string, track) dict \<Rightarrow> (string, 'b) dict \<Rightarrow>
   string list \<Rightarrow> (string, real) dict \<Rightarrow> error + (string, real) dict" where
  "evaluate_loop f_measure data estimated_beats [] diction = Inr diction"
| "evaluate_loop f_measure data estimated_beats (track_id # rest) diction =
     (case dict_get data track_id of
        Inl e \<Rightarrow> Inl e
      | Inr t \<Rightarrow>
          (case dict_get estimated_beats track_id of
             Inl e \<Rightarrow> Inl e
           | Inr est \<Rightarrow>
               (case f_measure (beats_times t) est of
                  Inl e \<Rightarrow> Inl e
                | Inr score \<Rightarrow>
                    evaluate_loop f_measure data estimated_beats rest
                      (dict_set diction track_id score))))"

definition evaluate_estimated_beats ::
  "(real list \<Rightarrow> 'b \<Rightarrow> error + real) \<Rightarrow> (string, track) dict \<Rightarrow> (string, 'b) dict \<Rightarrow>
   error + (string, real) dict" where
  "evaluate_estimated_beats f_measure data estimated_beats =
     evaluate_loop f_measure data estimated_beats (dict_keys data) []"

subsection \<open>Aggregator\<close>

text \<open>
  \<^verbatim>\<open>
  def split_by_genre(scores_dictionary, tracks_dictionary):
      genre_scores = {}
      genres = []
      for track_id in tracks_dictionary:
          if tracks_dictionary[track_id].genre not in genres:
              genres.append(tracks_dictionary[track_id].genre)
      for genre in genres:
          genre_tracks = {}
          for track_id in scores_dictionary:
              if genre == tracks_dictionary[track_id].genre:
                  genre_tracks[track_id] = scores_dictionary[track_id]
          genre_scores[genre] = genre_tracks
      return genre_scores
  \<close>
  One function for each of the three loops, the loop's variable being the list of keys
  that remain.
\<close>

fun collect_genres ::
  "(string, track) dict \<Rightarrow> string list \<Rightarrow> string list \<Rightarrow> error + string list" where
  "collect_genres tracks_dictionary [] genres = Inr genres"
| "collect_genres tracks_dictionary (track_id # rest) genres =
     (case dict_get tracks_dictionary track_id of
        Inl e \<Rightarrow> Inl e
      | Inr t \<Rightarrow>
          collect_genres tracks_dictionary rest
            (if genre t \<notin> set genres then genres @ [genre t] else genres))"

fun genre_tracks_loop ::
  "(string, 's) dict \<Rightarrow> (string, track) dict \<Rightarrow> string \<Rightarrow> string list \<Rightarrow>
   (string, 's) dict \<Rightarrow> error + (string, 's) dict" where
  "genre_tracks_loop scores_dictionary tracks_dictionary g [] genre_tracks = Inr genre_tracks"
| "genre_tracks_loop scores_dictionary tracks_dictionary g (track_id # rest) genre_tracks =
     (case dict_get tracks_dictionary track_id of
        Inl e \<Rightarrow> Inl e
      | Inr t \<Rightarrow>
          if g = genre t then
            (case dict_get scores_dictionary track_id of
               Inl e \<Rightarrow> Inl e
             | Inr s \<Rightarrow>
                 genre_tracks_loop scores_dictionary tracks_dictionary g rest
                   (dict_set genre_tracks track_id s))
          else genre_tracks_loop scores_dictionary tracks_dictionary g rest genre_tracks)"

fun genre_scores_loop ::
  "(string, 's) dict \<Rightarrow> (string, track) dict \<Rightarrow> string list \<Rightarrow>
   (string, (string, 's) dict) dict \<Rightarrow> error + (string, (string, 's) dict) dict" where
  "genre_scores_loop scores_dictionary tracks_dictionary [] genre_scores = Inr genre_scores"
| "genre_scores_loop scores_dictionary tracks_dictionary (g # rest) genre_scores =
     (case genre_tracks_loop scores_dictionary tracks_dictionary g
             (dict_keys scores_dictionary) [] of
        Inl e \<Rightarrow> Inl e
      | Inr genre_tracks \<Rightarrow>
          genre_scores_loop scores_dictionary tracks_dictionary rest
            (dict_set genre_scores g genre_tracks))"

definition split_by_genre ::
  "(string, 's) dict \<Rightarrow> (string, track) dict \<Rightarrow> error + (string, (string, 's) dict) dict" where
  "split_by_genre scores_dictionary tracks_dictionary =
     (case collect_genres tracks_dictionary (dict_keys tracks_dictionary) [] of
        Inl e \<Rightarrow> Inl e
      | Inr genres \<Rightarrow> genre_scores_loop scores_dictionary tracks_dictionary genres [])"

text \<open>
  \<^verbatim>\<open>
  def get_tempo_vs_performance(scores_dictionary, tracks_dictionary):
      tempo = []
      scores = []
      for track_id in scores_dictionary:
          tempo_value = tracks_dictionary[track_id].tempo
          score_value = scores_dictionary[track_id]
          tempo.append(tempo_value)
          scores.append(score_value)
      tempo = np.array(tempo)
      scores = np.array(scores)
      return tempo, scores
  \<close>
  \<open>np.array\<close> of a list of floats is the float64 array of the same values in the
  same order.
\<close>

fun tempo_loop ::
  "(string, real) dict \<Rightarrow> (string, track) dict \<Rightarrow> string list \<Rightarrow> real list \<Rightarrow> real list \<Rightarrow>
   error + (real list \<times> real list)" where
  "tempo_loop scores_dictionary tracks_dictionary [] tempos scores = Inr (tempos, scores)"
| "tempo_loop scores_dictionary tracks_dictionary (track_id # rest) tempos scores =
     (case dict_get tracks_dictionary track_id of
        Inl e \<Rightarrow> Inl e
      | Inr t \<Rightarrow>
          (case dict_get scores_dictionary track_id of
             Inl e \<Rightarrow> Inl e
           | Inr score_value \<Rightarrow>
               (let tempo_value = tempo t
                in tempo_loop scores_dictionary tracks_dictionary rest
                     (tempos @ [tempo_value]) (scores @ [score_value]))))"

definition get_tempo_vs_performance ::
  "(string, real) dict \<Rightarrow> (string, track) dict \<Rightarrow> error + (real list \<times> real list)" where
  "get_tempo_vs_performance scores_dictionary tracks_dictionary =
     tempo_loop scores_dictionary tracks_dictionary (dict_keys scores_dictionary) [] []"

subsection \<open>Time-axis helpers\<close>

text \<open>
  \<^verbatim>\<open>
  def compute_time_sf(novelty_sf, hop_size=512, sr=22050):
      number_frames = len(novelty_sf)
      time_sf = np.arange(number_frames) * hop_size / sr
      return time_sf
  \<close>
  The product is taken first, in int64; the division converts the products and the
  Python integer \<open>sr\<close> to float64.
\<close>

definition compute_time_sf :: "(real \<Rightarrow> real) \<Rightarrow> real list \<Rightarrow> int \<Rightarrow> int \<Rightarrow> error + npfloat list" where
  "compute_time_sf rnd novelty_sf hop_size sr =
     (let number_frames = length novelty_sf
      in case to_int64 hop_size of
           Inl e \<Rightarrow> Inl e
         | Inr h \<Rightarrow>
             (let products = map (\<lambda>a. wrap64 (a * h)) (arange number_frames)
              in case to_float64 rnd sr of
                   Inl e \<Rightarrow> Inl e
                 | Inr s \<Rightarrow>
                     (let time_sf = map (\<lambda>a. true_divide rnd a s) products
                      in Inr time_sf)))"

definition hop_size_default :: int where
  "hop_size_default = 512"

definition sr_default :: int where
  "sr_default = 22050"

text \<open>
  \<^verbatim>\<open>
  def compute_time_ml(novelty_ml, sr_ml=100):
      time_ml = np.arange(len(novelty_ml)) / sr_ml
      return time_ml
  \<close>
\<close>

definition compute_time_ml :: "(real \<Rightarrow> real) \<Rightarrow> real list \<Rightarrow> int \<Rightarrow> error + npfloat list" where
  "compute_time_ml rnd novelty_ml sr_ml =
     (case to_float64 rnd sr_ml of
        Inl e \<Rightarrow> Inl e
      | Inr s \<Rightarrow>
          (let time_ml = map (\<lambda>a. true_divide rnd a s) (arange (length novelty_ml))
           in Inr time_ml))"

definition sr_ml_default :: int where
  "sr_ml_default = 100"

subsection \<open>Sonifier\<close>

text \<open>
  \<^verbatim>\<open>
  def sonify_track_data(track_id, estimated_beats, tracks_dictionary):
      pass
  \<close>
  The body is empty. The state \<open>display\<close> stands for everything the function could act on
  (the audio clips shown for playback); the function returns Python's \<open>None\<close>, the unit
  value, and the state as it found it.
\<close>

definition sonify_track_data ::
  "string \<Rightarrow> (string \<times> 'b) list \<Rightarrow> (string \<times> 't) list \<Rightarrow> 'w \<Rightarrow> unit \<times> 'w" where
  "sonify_track_data track_id estimated_beats tracks_dictionary display = ((), display)"

subsection \<open>Notions the properties are stated with\<close>

text \<open>The elements of a list in the order of their first occurrence, each once.\<close>

fun first_seen :: "'a list \<Rightarrow> 'a list" where
  "first_seen [] = []"
| "first_seen (x # xs) = x # filter (\<lambda>y. y \<noteq> x) (first_seen xs)"

text \<open>The entries of a score mapping whose track has genre \<open>g\<close>, in the mapping's order.\<close>

definition scores_of_genre :: "(string, 's) dict \<Rightarrow> (string, track) dict \<Rightarrow> string \<Rightarrow> (string, 's) dict" where
  "scores_of_genre scores tracks g =
     filter (\<lambda>(track_id, s). map_option genre (map_of tracks track_id) = Some g) scores"

text \<open>
  What the properties use of the rounding to float64: it is monotone, it leaves the
  integers up to \<open>2^53\<close> in magnitude as they are, and on the normal range it moves a
  value by at most the fraction \<open>2^-53\<close> of it (round to nearest).
\<close>

definition float64_rounding :: "(real \<Rightarrow> real) \<Rightarrow> bool" where
  "float64_rounding rnd \<longleftrightarrow>
     (\<forall>x y. x \<le> y \<longrightarrow> rnd x \<le> rnd y)
   \<and> (\<forall>k::int. \<bar>k\<bar> \<le> 2 ^ 53 \<longrightarrow> rnd (real_of_int k) = real_of_int k)
   \<and> (\<forall>x. 1 / 2 ^ 1022 \<le> \<bar>x\<bar> \<and> \<bar>x\<bar> \<le> 2 ^ 1023 \<longrightarrow> \<bar>rnd x - x\<bar> \<le> \<bar>x\<bar> / 2 ^ 53)"

text \<open>
  The duration of a track in seconds, as \<open>librosa.get_duration\<close> gives it: the float
  quotient of the number of samples by the rate.
\<close>

definition track_duration :: "(real \<Rightarrow> real) \<Rightarrow> real list \<Rightarrow> int \<Rightarrow> real" where
  "track_duration rnd y sr = rnd (rnd (real (length y)) / rnd (real_of_int sr))"

section \<open>Properties\<close>

subsection \<open>Rounding\<close>

lemma rounding_mono: "float64_rounding rnd \<Longrightarrow> x \<le> y \<Longrightarrow> rnd x \<le> rnd y"
  by (simp add: float64_rounding_def)

lemma rounding_exact:
  assumes "float64_rounding rnd" and "\<bar>k\<bar> \<le> 2 ^ 53"
  shows "rnd (real_of_int k) = real_of_int k"
  using assms by (simp add: float64_rounding_def)

lemma rounding_zero: "float64_rounding rnd \<Longrightarrow> rnd 0 = 0"
  using rounding_exact [of rnd 0] by simp

lemma rounding_one: "float64_rounding rnd \<Longrightarrow> rnd 1 = 1"
  using rounding_exact [of rnd 1] by simp

lemma rounding_nonneg: "float64_rounding rnd \<Longrightarrow> 0 \<le> x \<Longrightarrow> 0 \<le> rnd x"
  using rounding_mono [of rnd 0 x] by (simp add: rounding_zero)

lemma rounding_int_ge_1:
  assumes "float64_rounding rnd" and "1 \<le> k"
  shows "1 \<le> rnd (real_of_int k)"
proof -
  from assms(2) have "(1 :: real) \<le> real_of_int k"
    by simp
  with assms(1) have "rnd 1 \<le> rnd (real_of_int k)"
    by (rule rounding_mono)
  with assms(1) show ?thesis
    by (simp add: rounding_one)
qed

lemma rounding_minus_one: "float64_rounding rnd \<Longrightarrow> rnd (- 1) = - 1"
  using rounding_exact [of rnd "- 1"] by simp

lemma rounding_int_le_minus_1:
  assumes "float64_rounding rnd" and "k \<le> - 1"
  shows "rnd (real_of_int k) \<le> - 1"
proof -
  from assms(2) have "real_of_int k \<le> (- 1 :: real)"
    by linarith
  with assms(1) have "rnd (real_of_int k) \<le> rnd (- 1)"
    by (rule rounding_mono)
  with assms(1) show ?thesis
    by (simp add: rounding_minus_one)
qed

lemma rounding_int_nonzero:
  assumes "float64_rounding rnd" and "k \<noteq> 0"
  shows "rnd (real_of_int k) \<noteq> 0"
proof (cases "1 \<le> k")
  case True
  with assms(1) have "1 \<le> rnd (real_of_int k)"
    by (rule rounding_int_ge_1)
  then show ?thesis
    by simp
next
  case False
  with assms(2) have "k \<le> - 1"
    by simp
  with assms(1) have "rnd (real_of_int k) \<le> - 1"
    by (rule rounding_int_le_minus_1)
  then show ?thesis
    by simp
qed

lemma rounding_error:
  assumes "float64_rounding rnd" and "1 / 2 ^ 53 \<le> x" and "x \<le> 2 ^ 53"
  shows "\<bar>rnd x - x\<bar> \<le> x / 2 ^ 53"
proof -
  have "(1 :: real) / 2 ^ 1022 \<le> 1 / 2 ^ 53"
    by simp
  with assms(2) have lo: "1 / 2 ^ 1022 \<le> x"
    by linarith
  have "(2 :: real) ^ 53 \<le> 2 ^ 1023"
    by simp
  with assms(3) have hi: "x \<le> 2 ^ 1023"
    by linarith
  have "(0 :: real) < 1 / 2 ^ 53"
    by simp
  with assms(2) have pos: "0 < x"
    by linarith
  from assms(1) have "1 / 2 ^ 1022 \<le> \<bar>x\<bar> \<and> \<bar>x\<bar> \<le> 2 ^ 1023 \<longrightarrow> \<bar>rnd x - x\<bar> \<le> \<bar>x\<bar> / 2 ^ 53"
    by (simp add: float64_rounding_def)
  with lo hi pos show ?thesis
    by simp
qed

lemma quotient_range:
  fixes a S :: int
  assumes "1 \<le> a" and "a \<le> 2 ^ 53" and "1 \<le> S" and "S \<le> 2 ^ 53"
  shows "1 / 2 ^ 53 \<le> real_of_int a / real_of_int S"
    and "real_of_int a / real_of_int S \<le> 2 ^ 53"
proof -
  from assms have ra: "1 \<le> real_of_int a" and rS: "1 \<le> real_of_int S"
    by simp_all
  from assms(2) have "real_of_int a \<le> real_of_int (2 ^ 53)"
    by (simp only: of_int_le_iff)
  then have ra': "real_of_int a \<le> 2 ^ 53"
    by simp
  from assms(4) have "real_of_int S \<le> real_of_int (2 ^ 53)"
    by (simp only: of_int_le_iff)
  then have rS': "real_of_int S \<le> 2 ^ 53"
    by simp
  from rS have Spos: "0 < real_of_int S"
    by linarith
  show "1 / 2 ^ 53 \<le> real_of_int a / real_of_int S"
    using frac_le [of 1 "real_of_int a" "real_of_int S" "2 ^ 53"] ra rS' Spos by simp
  have "real_of_int a / real_of_int S \<le> real_of_int a / 1"
    using frac_le [of "real_of_int a" "real_of_int a" 1 "real_of_int S"] ra rS by simp
  with ra' show "real_of_int a / real_of_int S \<le> 2 ^ 53"
    by simp
qed

lemma rounded_quotient_upper:
  fixes a S :: int
  assumes R: "float64_rounding rnd"
    and "0 \<le> a" and "a \<le> 2 ^ 53" and "1 \<le> S" and "S \<le> 2 ^ 53"
  shows "rnd (real_of_int a / real_of_int S)
         \<le> real_of_int a / real_of_int S + real_of_int a / real_of_int S / 2 ^ 53"
proof (cases "a = 0")
  case True
  with R show ?thesis
    by (simp add: rounding_zero)
next
  case False
  with assms(2) have "1 \<le> a"
    by simp
  from quotient_range [OF this assms(3,4,5)] R
  have "\<bar>rnd (real_of_int a / real_of_int S) - real_of_int a / real_of_int S\<bar>
        \<le> real_of_int a / real_of_int S / 2 ^ 53"
    by (intro rounding_error)
  then show ?thesis
    by (simp add: abs_le_iff)
qed

lemma rounded_quotient_lower:
  fixes a S :: int
  assumes R: "float64_rounding rnd"
    and "1 \<le> a" and "a \<le> 2 ^ 53" and "1 \<le> S" and "S \<le> 2 ^ 53"
  shows "real_of_int a / real_of_int S - real_of_int a / real_of_int S / 2 ^ 53
         \<le> rnd (real_of_int a / real_of_int S)"
proof -
  from quotient_range [OF assms(2,3,4,5)] R
  have "\<bar>rnd (real_of_int a / real_of_int S) - real_of_int a / real_of_int S\<bar>
        \<le> real_of_int a / real_of_int S / 2 ^ 53"
    by (intro rounding_error)
  then show ?thesis
    by (simp add: abs_le_iff)
qed

lemma rounded_quotient_less:
  fixes a b S :: int
  assumes R: "float64_rounding rnd"
    and S: "1 \<le> S" "S \<le> 2 ^ 53"
    and a: "0 \<le> a" and ab: "a < b" and b: "b \<le> 2 ^ 53"
    and gap: "a + b < (b - a) * 2 ^ 53"
  shows "rnd (real_of_int a / real_of_int S) < rnd (real_of_int b / real_of_int S)"
proof -
  let ?a = "real_of_int a" and ?b = "real_of_int b" and ?S = "real_of_int S"
  from a ab b have a': "a \<le> 2 ^ 53" and b': "1 \<le> b"
    by simp_all
  from S have Spos: "0 < ?S"
    by simp
  have up: "rnd (?a / ?S) \<le> ?a / ?S + ?a / ?S / 2 ^ 53"
    using R a a' S by (rule rounded_quotient_upper)
  have lo: "?b / ?S - ?b / ?S / 2 ^ 53 \<le> rnd (?b / ?S)"
    using R b' b S by (rule rounded_quotient_lower)
  from gap have "real_of_int (a + b) < real_of_int ((b - a) * 2 ^ 53)"
    by (simp only: of_int_less_iff)
  then have "?a + ?b < (?b - ?a) * 2 ^ 53"
    by simp
  then have num: "?a * 2 ^ 53 + ?a < ?b * 2 ^ 53 - ?b"
    by (simp add: algebra_simps)
  have den: "0 < ?S * 2 ^ 53"
    using Spos by simp
  have ea: "?a / ?S + ?a / ?S / 2 ^ 53 = (?a * 2 ^ 53 + ?a) / (?S * 2 ^ 53)"
    using Spos by (simp add: field_simps)
  have eb: "?b / ?S - ?b / ?S / 2 ^ 53 = (?b * 2 ^ 53 - ?b) / (?S * 2 ^ 53)"
    using Spos by (simp add: field_simps)
  from num den have "(?a * 2 ^ 53 + ?a) / (?S * 2 ^ 53) < (?b * 2 ^ 53 - ?b) / (?S * 2 ^ 53)"
    by (rule divide_strict_right_mono)
  then have "?a / ?S + ?a / ?S / 2 ^ 53 < ?b / ?S - ?b / ?S / 2 ^ 53"
    by (simp only: ea eb)
  with up lo show ?thesis
    by linarith
qed

subsection \<open>Integers and arrays\<close>

lemma wrap64_id: "int64_range x \<Longrightarrow> wrap64 x = x"
  by (simp add: wrap64_def int64_range_def)

lemma length_arange: "length (arange n) = n"
  by (simp add: arange_def)

lemma nth_arange: "i < n \<Longrightarrow> arange n ! i = int i"
  by (simp add: arange_def)

lemma true_divide_nonzero:
  "y \<noteq> 0 \<Longrightarrow> true_divide rnd a y = Fin (rnd (rnd (real_of_int a) / y))"
  by (simp add: true_divide_def)

lemma sorted_where_true: "sorted_wrt (<) (where_true flags)"
  by (simp add: where_true_def sorted_wrt_filter)

lemma set_where_true: "set (where_true flags) = {f. f < length flags \<and> flags ! f}"
  by (auto simp: where_true_def)

subsection \<open>The time axes in closed form\<close>

lemma compute_time_sf_closed:
  assumes "int64_range H" and "float64_range S"
  shows "compute_time_sf rnd nov H S
         = Inr (map (\<lambda>i. true_divide rnd (wrap64 (int i * H)) (rnd (real_of_int S)))
                  [0..<length nov])"
  using assms
  by (simp add: compute_time_sf_def to_int64_def to_float64_def arange_def comp_def)

lemma compute_time_sf_overflow:
  assumes "\<not> (int64_range H \<and> float64_range S)"
  shows "compute_time_sf rnd nov H S = Inl OverflowError"
  using assms
  by (auto simp: compute_time_sf_def to_int64_def to_float64_def)

lemma compute_time_ml_closed:
  assumes "float64_range R"
  shows "compute_time_ml rnd nov R
         = Inr (map (\<lambda>i. true_divide rnd (int i) (rnd (real_of_int R))) [0..<length nov])"
  using assms
  by (simp add: compute_time_ml_def to_float64_def arange_def comp_def)

lemma compute_time_ml_overflow:
  assumes "\<not> float64_range R"
  shows "compute_time_ml rnd nov R = Inl OverflowError"
  using assms
  by (simp add: compute_time_ml_def to_float64_def)

lemma product_bound:
  fixes H :: int
  assumes "i < n" and "(int n - 1) * \<bar>H\<bar> \<le> 2 ^ 53"
  shows "\<bar>int i * H\<bar> \<le> 2 ^ 53"
proof -
  from assms(1) have "int i \<le> int n - 1"
    by simp
  then have "int i * \<bar>H\<bar> \<le> (int n - 1) * \<bar>H\<bar>"
    by (rule mult_right_mono) simp
  with assms(2) have "int i * \<bar>H\<bar> \<le> 2 ^ 53"
    by linarith
  then show ?thesis
    by (simp add: abs_mult)
qed

lemma small_int64: "\<bar>x\<bar> \<le> 2 ^ 53 \<Longrightarrow> int64_range (x :: int)"
  by (simp add: int64_range_def abs_le_iff)

lemma exact_quotient:
  assumes R: "float64_rounding rnd" and "S \<noteq> 0" and "\<bar>S\<bar> \<le> 2 ^ 53" and "\<bar>a\<bar> \<le> 2 ^ 53"
  shows "true_divide rnd (wrap64 a) (rnd (real_of_int S)) = Fin (rnd (real_of_int a / real_of_int S))"
proof -
  from assms(4) have w: "wrap64 a = a"
    by (intro wrap64_id small_int64)
  from R assms(3) have s: "rnd (real_of_int S) = real_of_int S"
    by (rule rounding_exact)
  from R assms(4) have a: "rnd (real_of_int a) = real_of_int a"
    by (rule rounding_exact)
  from assms(2) show ?thesis
    by (simp add: w s a true_divide_def)
qed

subsection \<open>Dictionaries\<close>

lemma dict_set_append: "k \<notin> set (dict_keys d) \<Longrightarrow> dict_set d k v = d @ [(k, v)]"
  by (induction d) (auto simp: dict_keys_def)

lemma dict_get_Some: "map_of d k = Some v \<Longrightarrow> dict_get d k = Inr v"
  by (simp add: dict_get_def)

lemma dict_get_None: "map_of d k = None \<Longrightarrow> dict_get d k = Inl (KeyError k)"
  by (simp add: dict_get_def)

lemma map_of_keys: "k \<in> set (dict_keys d) \<Longrightarrow> \<exists>v. map_of d k = Some v"
  by (cases "map_of d k") (auto simp: dict_keys_def map_of_eq_None_iff)

lemma map_of_not_keys: "k \<notin> set (dict_keys d) \<Longrightarrow> map_of d k = None"
  by (simp add: dict_keys_def map_of_eq_None_iff)

lemma lookup_keys_filter:
  "distinct (map fst xs) \<Longrightarrow>
   map (\<lambda>k. (k, the (map_of xs k))) (filter Q (map fst xs)) = filter (\<lambda>(k, v). Q k) xs"
proof (induction xs)
  case Nil
  show ?case by simp
next
  case (Cons p xs)
  obtain a b where p: "p = (a, b)" by (cases p)
  from Cons.prems p have a: "a \<notin> set (map fst xs)" and d: "distinct (map fst xs)"
    by simp_all
  have "map (\<lambda>k. (k, the (map_of (p # xs) k))) (filter Q (map fst xs))
        = map (\<lambda>k. (k, the (map_of xs k))) (filter Q (map fst xs))"
    using a by (intro map_cong) (auto simp: p)
  with Cons.IH [OF d] show ?case
    by (simp add: p)
qed

lemma lookup_keys: "distinct (map fst xs) \<Longrightarrow> map (\<lambda>k. (k, the (map_of xs k))) (map fst xs) = xs"
  using lookup_keys_filter [of xs "\<lambda>k. True"] by simp

lemma lookup_keys_map:
  assumes "distinct (map fst xs)"
  shows "map (\<lambda>k. f k (the (map_of xs k))) (map fst xs) = map (\<lambda>(k, v). f k v) xs"
proof -
  have "map (\<lambda>(k, v). f k v) (map (\<lambda>k. (k, the (map_of xs k))) (map fst xs))
        = map (\<lambda>(k, v). f k v) xs"
    using lookup_keys [OF assms] by simp
  then show ?thesis
    by (simp add: comp_def)
qed

lemma map_of_graph: "g \<in> set gl \<Longrightarrow> map_of (map (\<lambda>g. (g, F g)) gl) g = Some (F g)"
  by (induction gl) auto

subsection \<open>First occurrences\<close>

lemma first_seen_filter: "first_seen (filter P xs) = filter P (first_seen xs)"
proof (induction xs)
  case Nil
  show ?case by simp
next
  case (Cons x xs)
  show ?case
  proof (cases "P x")
    case True
    have "filter (\<lambda>y. y \<noteq> x) (filter P (first_seen xs)) = filter P (filter (\<lambda>y. y \<noteq> x) (first_seen xs))"
      by (simp add: conj_commute)
    with True Cons.IH show ?thesis by simp
  next
    case False
    have "filter P (filter (\<lambda>y. y \<noteq> x) (first_seen xs)) = filter P (first_seen xs)"
      unfolding filter_filter using False by (intro filter_cong) auto
    with False Cons.IH show ?thesis by simp
  qed
qed

lemma set_first_seen: "set (first_seen xs) = set xs"
  by (induction xs) auto

lemma distinct_first_seen: "distinct (first_seen xs)"
  by (induction xs) auto

subsection \<open>The loops in closed form\<close>

lemma collect_genres_closed:
  assumes "set ids \<subseteq> set (dict_keys tracks)"
  shows "collect_genres tracks ids acc =
         Inr (acc @ first_seen (filter (\<lambda>g. g \<notin> set acc)
                                  (map (\<lambda>k. genre (the (map_of tracks k))) ids)))"
  using assms
proof (induction ids arbitrary: acc)
  case Nil
  show ?case by simp
next
  case (Cons k ids)
  from Cons.prems obtain t where t: "map_of tracks k = Some t"
    using map_of_keys [of k tracks] by auto
  from Cons.prems have sub: "set ids \<subseteq> set (dict_keys tracks)"
    by simp
  let ?gs = "map (\<lambda>k. genre (the (map_of tracks k))) ids"
  show ?case
  proof (cases "genre t \<in> set acc")
    case True
    with Cons.IH [OF sub, of acc] show ?thesis
      by (simp add: dict_get_Some [OF t] t)
  next
    case False
    have "filter (\<lambda>g. g \<notin> set (acc @ [genre t])) ?gs
          = filter (\<lambda>y. y \<noteq> genre t) (filter (\<lambda>g. g \<notin> set acc) ?gs)"
      unfolding filter_filter by (intro filter_cong) auto
    then have "first_seen (filter (\<lambda>g. g \<notin> set (acc @ [genre t])) ?gs)
          = filter (\<lambda>y. y \<noteq> genre t) (first_seen (filter (\<lambda>g. g \<notin> set acc) ?gs))"
      by (simp only: first_seen_filter)
    with False Cons.IH [OF sub, of "acc @ [genre t]"] show ?thesis
      by (simp add: dict_get_Some [OF t] t)
  qed
qed

lemma genre_tracks_loop_closed:
  assumes "distinct ids" and "set ids \<inter> set (dict_keys acc) = {}"
    and "set ids \<subseteq> set (dict_keys tracks)" and "set ids \<subseteq> set (dict_keys scores)"
  shows "genre_tracks_loop scores tracks g ids acc =
         Inr (acc @ map (\<lambda>k. (k, the (map_of scores k)))
                      (filter (\<lambda>k. map_option genre (map_of tracks k) = Some g) ids))"
  using assms
proof (induction ids arbitrary: acc)
  case Nil
  show ?case by simp
next
  case (Cons k ids)
  from Cons.prems obtain t where t: "map_of tracks k = Some t"
    using map_of_keys [of k tracks] by auto
  from Cons.prems obtain s where s: "map_of scores k = Some s"
    using map_of_keys [of k scores] by auto
  from Cons.prems have d: "distinct ids" and k: "k \<notin> set ids" and ka: "k \<notin> set (dict_keys acc)"
    and st: "set ids \<subseteq> set (dict_keys tracks)" and ss: "set ids \<subseteq> set (dict_keys scores)"
    and da: "set ids \<inter> set (dict_keys acc) = {}"
    by auto
  show ?case
  proof (cases "g = genre t")
    case True
    have set: "dict_set acc k s = acc @ [(k, s)]"
      using ka by (rule dict_set_append)
    have "set ids \<inter> set (dict_keys (acc @ [(k, s)])) = {}"
      using da k by (auto simp: dict_keys_def)
    from Cons.IH [OF d this st ss] True show ?thesis
      by (simp add: dict_get_Some [OF t] dict_get_Some [OF s] t s set)
  next
    case False
    then have "genre t \<noteq> g" by auto
    with Cons.IH [OF d da st ss] False show ?thesis
      by (simp add: dict_get_Some [OF t] t)
  qed
qed

lemma genre_tracks_loop_scores:
  assumes "distinct (dict_keys scores)" and "set (dict_keys scores) \<subseteq> set (dict_keys tracks)"
  shows "genre_tracks_loop scores tracks g (dict_keys scores) [] = Inr (scores_of_genre scores tracks g)"
proof -
  have "genre_tracks_loop scores tracks g (dict_keys scores) [] =
        Inr (map (\<lambda>k. (k, the (map_of scores k)))
               (filter (\<lambda>k. map_option genre (map_of tracks k) = Some g) (dict_keys scores)))"
    using genre_tracks_loop_closed [of "dict_keys scores" "[]" tracks scores g] assms
    by (simp add: dict_keys_def)
  also have "map (\<lambda>k. (k, the (map_of scores k)))
               (filter (\<lambda>k. map_option genre (map_of tracks k) = Some g) (dict_keys scores))
             = scores_of_genre scores tracks g"
    using lookup_keys_filter [of scores "\<lambda>k. map_option genre (map_of tracks k) = Some g"] assms(1)
    by (simp add: dict_keys_def scores_of_genre_def)
  finally show ?thesis .
qed

lemma genre_scores_loop_closed:
  assumes "distinct gl" and "set gl \<inter> set (dict_keys acc) = {}"
    and "distinct (dict_keys scores)" and "set (dict_keys scores) \<subseteq> set (dict_keys tracks)"
  shows "genre_scores_loop scores tracks gl acc =
         Inr (acc @ map (\<lambda>g. (g, scores_of_genre scores tracks g)) gl)"
  using assms(1,2)
proof (induction gl arbitrary: acc)
  case Nil
  show ?case by simp
next
  case (Cons g gl)
  from Cons.prems have d: "distinct gl" and g: "g \<notin> set gl" and ga: "g \<notin> set (dict_keys acc)"
    and da: "set gl \<inter> set (dict_keys acc) = {}"
    by auto
  have set: "dict_set acc g (scores_of_genre scores tracks g) = acc @ [(g, scores_of_genre scores tracks g)]"
    using ga by (rule dict_set_append)
  have "set gl \<inter> set (dict_keys (acc @ [(g, scores_of_genre scores tracks g)])) = {}"
    using da g by (auto simp: dict_keys_def)
  from Cons.IH [OF d this] show ?case
    by (simp add: genre_tracks_loop_scores [OF assms(3,4)] set)
qed

lemma split_by_genre_closed:
  assumes "distinct (dict_keys tracks)" and "distinct (dict_keys scores)"
    and "set (dict_keys scores) \<subseteq> set (dict_keys tracks)"
  shows "split_by_genre scores tracks =
         Inr (map (\<lambda>g. (g, scores_of_genre scores tracks g))
                (first_seen (map (\<lambda>(track_id, t). genre t) tracks)))"
proof -
  have "map (\<lambda>k. genre (the (map_of tracks k))) (dict_keys tracks) = map (\<lambda>(track_id, t). genre t) tracks"
    using lookup_keys_map [of tracks "\<lambda>k t. genre t"] assms(1)
    by (simp add: dict_keys_def)
  then have "collect_genres tracks (dict_keys tracks) [] =
             Inr (first_seen (map (\<lambda>(track_id, t). genre t) tracks))"
    using collect_genres_closed [of "dict_keys tracks" tracks "[]"] by simp
  moreover have "genre_scores_loop scores tracks (first_seen (map (\<lambda>(track_id, t). genre t) tracks)) []
        = Inr (map (\<lambda>g. (g, scores_of_genre scores tracks g))
                 (first_seen (map (\<lambda>(track_id, t). genre t) tracks)))"
    using genre_scores_loop_closed [of "first_seen (map (\<lambda>(track_id, t). genre t) tracks)" "[]" scores tracks]
      assms(2,3)
    by (simp add: distinct_first_seen dict_keys_def)
  ultimately show ?thesis
    by (simp add: split_by_genre_def)
qed

lemma tempo_loop_closed:
  assumes "set ids \<subseteq> set (dict_keys tracks)" and "set ids \<subseteq> set (dict_keys scores)"
  shows "tempo_loop scores tracks ids ta sa =
         Inr (ta @ map (\<lambda>k. tempo (the (map_of tracks k))) ids,
              sa @ map (\<lambda>k. the (map_of scores k)) ids)"
  using assms
proof (induction ids arbitrary: ta sa)
  case Nil
  show ?case by simp
next
  case (Cons k ids)
  from Cons.prems obtain t where t: "map_of tracks k = Some t"
    using map_of_keys [of k tracks] by auto
  from Cons.prems obtain s where s: "map_of scores k = Some s"
    using map_of_keys [of k scores] by auto
  from Cons.prems have st: "set ids \<subseteq> set (dict_keys tracks)" and ss: "set ids \<subseteq> set (dict_keys scores)"
    by auto
  from Cons.IH [OF st ss] show ?case
    by (simp add: dict_get_Some [OF t] dict_get_Some [OF s] t s)
qed

lemma tempo_loop_returns:
  "tempo_loop scores tracks ids ta sa = Inr r \<Longrightarrow> set ids \<subseteq> set (dict_keys tracks)"
proof (induction ids arbitrary: ta sa)
  case Nil
  show ?case by simp
next
  case (Cons k ids)
  show ?case
  proof (cases "k \<in> set (dict_keys tracks)")
    case True
    with Cons show ?thesis
      by (auto simp: Let_def split: sum.splits)
  next
    case False
    with Cons.prems show ?thesis
      by (simp add: dict_get_None [OF map_of_not_keys])
  qed
qed

lemma evaluate_loop_closed:
  assumes "distinct ids" and "set ids \<inter> set (dict_keys acc) = {}"
    and "\<forall>k\<in>set ids. \<exists>t est s. map_of data k = Some t \<and> map_of estimated k = Some est
            \<and> f_measure (beats_times t) est = Inr s"
  shows "evaluate_loop f_measure data estimated ids acc =
         Inr (acc @ map (\<lambda>k. (k, projr (f_measure (beats_times (the (map_of data k)))
                                                  (the (map_of estimated k))))) ids)"
  using assms
proof (induction ids arbitrary: acc)
  case Nil
  show ?case by simp
next
  case (Cons k ids)
  from Cons.prems(3) obtain t est s where t: "map_of data k = Some t"
    and e: "map_of estimated k = Some est" and s: "f_measure (beats_times t) est = Inr s"
    by auto
  from Cons.prems have d: "distinct ids" and k: "k \<notin> set ids" and ka: "k \<notin> set (dict_keys acc)"
    and da: "set ids \<inter> set (dict_keys acc) = {}"
    and rest: "\<forall>k\<in>set ids. \<exists>t est s. map_of data k = Some t \<and> map_of estimated k = Some est
            \<and> f_measure (beats_times t) est = Inr s"
    by auto
  have set: "dict_set acc k s = acc @ [(k, s)]"
    using ka by (rule dict_set_append)
  have "set ids \<inter> set (dict_keys (acc @ [(k, s)])) = {}"
    using da k by (auto simp: dict_keys_def)
  from Cons.IH [OF d this rest] show ?case
    by (simp add: dict_get_Some [OF t] dict_get_Some [OF e] t e s set)
qed

lemma evaluate_loop_missing:
  assumes "k \<in> set ids" and "map_of estimated k = None"
  shows "\<exists>e. evaluate_loop f_measure data estimated ids acc = Inl e"
  using assms(1)
proof (induction ids arbitrary: acc)
  case Nil
  then show ?case by simp
next
  case (Cons j ids)
  show ?case
  proof (cases "j = k")
    case True
    then show ?thesis
      by (simp add: dict_get_None [OF assms(2)] split: sum.splits)
  next
    case False
    with Cons.prems have "k \<in> set ids" by simp
    from Cons.IH [OF this] show ?thesis
      by (simp split: sum.splits)
  qed
qed

lemma evaluate_loop_first_missing:
  assumes "\<forall>j\<in>set pre. \<exists>t est s. map_of data j = Some t \<and> map_of estimated j = Some est
            \<and> f_measure (beats_times t) est = Inr s"
    and "map_of data k = Some t" and "map_of estimated k = None"
  shows "evaluate_loop f_measure data estimated (pre @ k # post) acc = Inl (KeyError k)"
  using assms(1)
proof (induction pre arbitrary: acc)
  case Nil
  show ?case
    by (simp add: dict_get_Some [OF assms(2)] dict_get_None [OF assms(3)])
next
  case (Cons j pre)
  from Cons.prems obtain t' est s where t: "map_of data j = Some t'"
    and e: "map_of estimated j = Some est" and s: "f_measure (beats_times t') est = Inr s"
    by auto
  from Cons.prems have "\<forall>j\<in>set pre. \<exists>t est s. map_of data j = Some t \<and> map_of estimated j = Some est
            \<and> f_measure (beats_times t) est = Inr s"
    by simp
  from Cons.IH [OF this] show ?case
    by (simp add: dict_get_Some [OF t] dict_get_Some [OF e] s)
qed

lemma evaluate_loop_first_raise:
  assumes "\<forall>j\<in>set pre. \<exists>t est s. map_of data j = Some t \<and> map_of estimated j = Some est
            \<and> f_measure (beats_times t) est = Inr s"
    and "map_of data k = Some t" and "map_of estimated k = Some est"
    and "f_measure (beats_times t) est = Inl e"
  shows "evaluate_loop f_measure data estimated (pre @ k # post) acc = Inl e"
  using assms(1)
proof (induction pre arbitrary: acc)
  case Nil
  show ?case
    by (simp add: dict_get_Some [OF assms(2)] dict_get_Some [OF assms(3)] assms(4))
next
  case (Cons j pre)
  from Cons.prems obtain t' est' s where t: "map_of data j = Some t'"
    and e: "map_of estimated j = Some est'" and s: "f_measure (beats_times t') est' = Inr s"
    by auto
  from Cons.prems have "\<forall>j\<in>set pre. \<exists>t est s. map_of data j = Some t \<and> map_of estimated j = Some est
            \<and> f_measure (beats_times t) est = Inr s"
    by simp
  from Cons.IH [OF this] show ?case
    by (simp add: dict_get_Some [OF t] dict_get_Some [OF e] s)
qed

subsection \<open>The result of the genre split\<close>

lemma split_by_genre_result:
  assumes "distinct (dict_keys tracks)" and "distinct (dict_keys scores)"
    and "set (dict_keys scores) \<subseteq> set (dict_keys tracks)"
  shows "\<exists>genre_scores. split_by_genre scores tracks = Inr genre_scores
     \<and> dict_keys genre_scores = first_seen (map (\<lambda>(track_id, t). genre t) tracks)
     \<and> (\<forall>g. map_of genre_scores g =
            (if g \<in> set (first_seen (map (\<lambda>(track_id, t). genre t) tracks))
             then Some (scores_of_genre scores tracks g) else None))"
proof -
  let ?genres = "first_seen (map (\<lambda>(track_id, t). genre t) tracks)"
  let ?gs = "map (\<lambda>g. (g, scores_of_genre scores tracks g)) ?genres"
  have res: "split_by_genre scores tracks = Inr ?gs"
    using assms by (rule split_by_genre_closed)
  have keys: "dict_keys ?gs = ?genres"
    by (simp add: dict_keys_def comp_def)
  have look: "\<forall>g. map_of ?gs g =
      (if g \<in> set ?genres then Some (scores_of_genre scores tracks g) else None)"
  proof
    fix g
    show "map_of ?gs g = (if g \<in> set ?genres then Some (scores_of_genre scores tracks g) else None)"
    proof (cases "g \<in> set ?genres")
      case True
      then have "map_of ?gs g = Some (scores_of_genre scores tracks g)"
        by (rule map_of_graph)
      with True show ?thesis by simp
    next
      case False
      then have "map_of ?gs g = None"
        by (simp add: map_of_eq_None_iff image_image)
      with False show ?thesis by simp
    qed
  qed
  from res keys look show ?thesis
    by (intro exI [of _ ?gs] conjI)
qed

lemma genre_in_first_seen:
  assumes "(track_id, t) \<in> set tracks"
  shows "genre t \<in> set (first_seen (map (\<lambda>(track_id, t). genre t) tracks))"
proof -
  from assms have "(\<lambda>(track_id, t). genre t) (track_id, t) \<in> (\<lambda>(track_id, t). genre t) ` set tracks"
    by (rule imageI)
  then show ?thesis
    by (simp add: set_first_seen)
qed

subsection \<open>Frames and times\<close>

lemma frames_to_time_closed:
  assumes "frames_to_time rnd frames sr hop_length = Inr beat_times"
  shows "beat_times = map (\<lambda>f. true_divide rnd (wrap64 (int f * hop_length)) (rnd (real_of_int sr))) frames"
proof -
  from assms have h: "to_int64 hop_length = Inr hop_length"
    by (simp add: frames_to_time_def to_int64_def split: if_splits)
  from assms have s: "to_float64 rnd sr = Inr (rnd (real_of_int sr))"
    by (simp add: frames_to_time_def to_int64_def to_float64_def Let_def split: if_splits)
  from assms show ?thesis
    by (simp add: frames_to_time_def h s comp_def)
qed

lemma estimate_returns:
  assumes "estimate_beats_spectral_flux rnd L audio_path hop_length = Inr (beat_times, activation)"
    and "lr_load L audio_path = Inr (y, sr)"
    and "lr_plp L y sr hop_length activation = Inr plp"
  shows "frames_to_time rnd (where_true (lr_localmax L plp)) sr hop_length = Inr beat_times"
proof -
  from assms(1,2) obtain plp' where "lr_plp L y sr hop_length activation = Inr plp'"
    and "frames_to_time rnd (where_true (lr_localmax L plp')) sr hop_length = Inr beat_times"
    by (auto simp: estimate_beats_spectral_flux_def Let_def split: sum.splits)
  with assms(3) show ?thesis
    by simp
qed

lemma frame_sample_bound:
  fixes hop_length :: int
  assumes "f < n" and "0 < hop_length" and "(int n - 1) * hop_length \<le> m"
  shows "0 \<le> int f * hop_length" and "int f * hop_length \<le> m"
proof -
  from assms(2) show "0 \<le> int f * hop_length"
    by simp
  from assms(1) have "int f \<le> int n - 1"
    by simp
  then have "int f * hop_length \<le> (int n - 1) * hop_length"
    using assms(2) by (intro mult_right_mono) simp_all
  with assms(3) show "int f * hop_length \<le> m"
    by linarith
qed

lemma rounded_time_mono:
  fixes a b sr :: int
  assumes R: "float64_rounding rnd" and sr: "1 \<le> sr" and ab: "a \<le> b"
  shows "rnd (rnd (real_of_int a) / rnd (real_of_int sr))
         \<le> rnd (rnd (real_of_int b) / rnd (real_of_int sr))"
proof -
  from R sr have "1 \<le> rnd (real_of_int sr)"
    by (rule rounding_int_ge_1)
  then have pos: "0 \<le> rnd (real_of_int sr)"
    by linarith
  from ab have "real_of_int a \<le> real_of_int b"
    by (simp only: of_int_le_iff)
  with R have "rnd (real_of_int a) \<le> rnd (real_of_int b)"
    by (rule rounding_mono)
  then have "rnd (real_of_int a) / rnd (real_of_int sr) \<le> rnd (real_of_int b) / rnd (real_of_int sr)"
    using pos by (rule divide_right_mono)
  with R show ?thesis
    by (rule rounding_mono)
qed

lemma rounded_time_zero:
  assumes "float64_rounding rnd"
  shows "rnd (rnd (real_of_int 0) / rnd (real_of_int sr)) = 0"
  using assms by (simp add: rounding_zero)

lemma np_less_rounded_products:
  fixes H S :: int
  assumes R: "float64_rounding rnd"
    and H: "0 < H" and S: "0 < S" "S \<le> 2 ^ 53"
    and ij: "i < j" and jn: "j < n"
    and prod: "(int n - 1) * H \<le> 2 ^ 53" and n: "int n \<le> 2 ^ 52"
  shows "rnd (real_of_int (int i * H) / real_of_int S)
         < rnd (real_of_int (int j * H) / real_of_int S)"
proof -
  from S have S1: "1 \<le> S"
    by simp
  from H have a: "0 \<le> int i * H"
    by simp
  from ij H have ab: "int i * H < int j * H"
    by simp
  from jn have "int j \<le> int n - 1"
    by simp
  then have "int j * H \<le> (int n - 1) * H"
    using H by (intro mult_right_mono) simp_all
  with prod have b: "int j * H \<le> 2 ^ 53"
    by linarith
  from ij have one: "1 \<le> int j - int i"
    by simp
  then have "1 * (2 ^ 53 :: int) \<le> (int j - int i) * 2 ^ 53"
    by (intro mult_right_mono) simp_all
  moreover from ij jn n have "int i + int j < 2 ^ 53"
    by simp
  ultimately have "int i + int j < (int j - int i) * 2 ^ 53"
    by linarith
  then have "(int i + int j) * H < ((int j - int i) * 2 ^ 53) * H"
    using H by (rule mult_strict_right_mono)
  then have gap: "int i * H + int j * H < (int j * H - int i * H) * 2 ^ 53"
    by (simp add: algebra_simps)
  from R S1 S(2) a ab b gap show ?thesis
    by (rule rounded_quotient_less)
qed

subsection \<open>Dataset loader\<close>

text \<open>
  C1. The claim is that the name argument decides which dataset is initialised. The code
  passes the fixed name \<open>gtzan_genre\<close> instead: with \<open>initialize\<close> returning the
  arguments it receives, a call for the dataset \<open>beatles\<close> initialises \<open>gtzan_genre\<close>.
\<close>

theorem load_data_fixed_name:
  "load_data (\<lambda>name home version. (name, home, version)) ''beatles'' ''/data'' dataset_version_default
     = (''gtzan_genre'', ''/data'', ''mini'')"
  by (simp add: load_data_def dataset_version_default_def)

subsection \<open>Beat estimator\<close>

text \<open>
  C2. With a float64 rounding \<open>rnd\<close>: let the estimator return beat times for a file
  that librosa decodes to the samples \<open>y\<close> at the rate \<open>sr\<close>, librosa having accepted a
  positive hop length and a positive rate, and its pulse curve having no frame that
  starts after the end of the signal. Then the beat times are the float64 quotients
  \<open>f * hop_length / sr\<close> of the frames \<open>f\<close> that the detector marks as local maxima,
  taken in strictly increasing order; they are the float64 nearest to the real quotients
  when the signal length and the rate are at most \<open>2^53\<close>; they are non-decreasing; and
  they lie between 0 and the duration of the track.
\<close>

theorem estimate_beats_spectral_flux_times:
  assumes R: "float64_rounding rnd"
    and est: "estimate_beats_spectral_flux rnd L audio_path hop_length = Inr (beat_times, activation)"
    and ld: "lr_load L audio_path = Inr (y, sr)"
    and pl: "lr_plp L y sr hop_length activation = Inr plp"
    and hop: "0 < hop_length" and sr: "0 < sr"
    and len: "int (length y) < 2 ^ 63"
    and frames: "(int (length (lr_localmax L plp)) - 1) * hop_length \<le> int (length y)"
  shows "beat_times = map (\<lambda>f. Fin (rnd (rnd (real_of_int (int f * hop_length)) / rnd (real_of_int sr))))
                        (where_true (lr_localmax L plp))
     \<and> (int (length y) \<le> 2 ^ 53 \<and> sr \<le> 2 ^ 53 \<longrightarrow>
          beat_times = map (\<lambda>f. Fin (rnd (real_of_int (int f * hop_length) / real_of_int sr)))
                         (where_true (lr_localmax L plp)))
     \<and> sorted_wrt (<) (where_true (lr_localmax L plp))
     \<and> set (where_true (lr_localmax L plp))
         = {f. f < length (lr_localmax L plp) \<and> lr_localmax L plp ! f}
     \<and> sorted_wrt np_le beat_times
     \<and> (\<forall>t \<in> set beat_times. np_le (Fin 0) t \<and> np_le t (Fin (track_duration rnd y sr)))"
proof -
  let ?flags = "lr_localmax L plp"
  let ?frames = "where_true ?flags"
  let ?time = "\<lambda>f. Fin (rnd (rnd (real_of_int (int f * hop_length)) / rnd (real_of_int sr)))"
  let ?near = "\<lambda>f. Fin (rnd (real_of_int (int f * hop_length) / real_of_int sr))"
  from sr have sr1: "1 \<le> sr"
    by simp
  with R have "1 \<le> rnd (real_of_int sr)"
    by (rule rounding_int_ge_1)
  then have srnz: "rnd (real_of_int sr) \<noteq> 0"
    by simp
  have inside: "0 \<le> int f * hop_length \<and> int f * hop_length \<le> int (length y)"
    if "f \<in> set ?frames" for f
  proof -
    from that have "f < length ?flags"
      by (simp add: set_where_true)
    from frame_sample_bound [OF this hop frames] show ?thesis
      by (rule conjI)
  qed
  from est ld pl have "frames_to_time rnd ?frames sr hop_length = Inr beat_times"
    by (rule estimate_returns)
  then have raw: "beat_times
      = map (\<lambda>f. true_divide rnd (wrap64 (int f * hop_length)) (rnd (real_of_int sr))) ?frames"
    by (rule frames_to_time_closed)
  have "map (\<lambda>f. true_divide rnd (wrap64 (int f * hop_length)) (rnd (real_of_int sr))) ?frames
        = map ?time ?frames"
  proof (rule map_cong [OF refl])
    fix f assume "f \<in> set ?frames"
    then have "0 \<le> int f * hop_length \<and> int f * hop_length \<le> int (length y)"
      by (rule inside)
    with len have "int64_range (int f * hop_length)"
      by (simp add: int64_range_def)
    then have "wrap64 (int f * hop_length) = int f * hop_length"
      by (rule wrap64_id)
    with srnz show "true_divide rnd (wrap64 (int f * hop_length)) (rnd (real_of_int sr)) = ?time f"
      by (simp add: true_divide_nonzero)
  qed
  with raw have bt: "beat_times = map ?time ?frames"
    by simp
  have near: "int (length y) \<le> 2 ^ 53 \<and> sr \<le> 2 ^ 53 \<longrightarrow> beat_times = map ?near ?frames"
  proof
    assume c: "int (length y) \<le> 2 ^ 53 \<and> sr \<le> 2 ^ 53"
    with sr have s53: "\<bar>sr\<bar> \<le> 2 ^ 53"
      by simp
    with R have es: "rnd (real_of_int sr) = real_of_int sr"
      by (rule rounding_exact)
    have "map ?time ?frames = map ?near ?frames"
    proof (rule map_cong [OF refl])
      fix f assume "f \<in> set ?frames"
      then have "0 \<le> int f * hop_length \<and> int f * hop_length \<le> int (length y)"
        by (rule inside)
      with c have "\<bar>int f * hop_length\<bar> \<le> 2 ^ 53"
        by simp
      with R have "rnd (real_of_int (int f * hop_length)) = real_of_int (int f * hop_length)"
        by (rule rounding_exact)
      then show "?time f = ?near f"
        by (simp only: es)
    qed
    with bt show "beat_times = map ?near ?frames"
      by simp
  qed
  have incr: "sorted_wrt (<) ?frames"
    by (rule sorted_where_true)
  have frames_set: "set ?frames = {f. f < length ?flags \<and> ?flags ! f}"
    by (rule set_where_true)
  have "sorted_wrt (\<lambda>a b. np_le (?time a) (?time b)) ?frames"
  proof (rule sorted_wrt_mono_rel [OF _ incr])
    fix a b :: nat
    assume "a < b"
    with hop have "int a * hop_length \<le> int b * hop_length"
      by simp
    with R sr1 have "rnd (rnd (real_of_int (int a * hop_length)) / rnd (real_of_int sr))
        \<le> rnd (rnd (real_of_int (int b * hop_length)) / rnd (real_of_int sr))"
      by (rule rounded_time_mono)
    then show "np_le (?time a) (?time b)"
      by simp
  qed
  then have sorted: "sorted_wrt np_le beat_times"
    by (simp add: bt sorted_wrt_map)
  have bounds: "\<forall>t \<in> set beat_times. np_le (Fin 0) t \<and> np_le t (Fin (track_duration rnd y sr))"
  proof
    fix t assume "t \<in> set beat_times"
    with bt obtain f where f: "f \<in> set ?frames" and t: "t = ?time f"
      by auto
    from f have in_signal: "0 \<le> int f * hop_length \<and> int f * hop_length \<le> int (length y)"
      by (rule inside)
    then have "(0 :: int) \<le> int f * hop_length"
      by (rule conjunct1)
    with R sr1 have "rnd (rnd (real_of_int 0) / rnd (real_of_int sr))
        \<le> rnd (rnd (real_of_int (int f * hop_length)) / rnd (real_of_int sr))"
      by (rule rounded_time_mono)
    with R have lower: "0 \<le> rnd (rnd (real_of_int (int f * hop_length)) / rnd (real_of_int sr))"
      by (simp only: rounded_time_zero)
    from in_signal have "int f * hop_length \<le> int (length y)"
      by (rule conjunct2)
    with R sr1 have "rnd (rnd (real_of_int (int f * hop_length)) / rnd (real_of_int sr))
        \<le> rnd (rnd (real_of_int (int (length y))) / rnd (real_of_int sr))"
      by (rule rounded_time_mono)
    then have upper: "rnd (rnd (real_of_int (int f * hop_length)) / rnd (real_of_int sr))
        \<le> track_duration rnd y sr"
      by (simp add: track_duration_def)
    from lower upper show "np_le (Fin 0) t \<and> np_le t (Fin (track_duration rnd y sr))"
      by (simp add: t)
  qed
  from bt near incr frames_set sorted bounds show ?thesis
    by (intro conjI)
qed

theorem estimate_beats_spectral_flux_times_witness:
  "float64_rounding (\<lambda>x. x)
   \<and> estimate_beats_spectral_flux (\<lambda>x. x)
       \<lparr>lr_load = \<lambda>p. Inr ([0, 0, 0, 0, 0, 0, 0, 0], 4),
        lr_onset_strength = \<lambda>y sr h. Inr [0, 1, 0, 1, 0],
        lr_plp = \<lambda>y sr h a. Inr a,
        lr_localmax = \<lambda>xs. [False, True, False, True, False]\<rparr> ''clip.wav'' 2
     = Inr ([Fin (1 / 2), Fin (3 / 2)], [0, 1, 0, 1, 0])
   \<and> sorted_wrt np_le [Fin (1 / 2), Fin (3 / 2)]
   \<and> np_le (Fin 0) (Fin (1 / 2))
   \<and> np_le (Fin (3 / 2)) (Fin (track_duration (\<lambda>x. x) [0, 0, 0, 0, 0, 0, 0, 0] 4))"
proof -
  let ?L = "\<lparr>lr_load = \<lambda>p. Inr ([0, 0, 0, 0, 0, 0, 0, 0 :: real], 4 :: int),
      lr_onset_strength = \<lambda>y sr h. Inr [0, 1, 0, 1, 0 :: real],
      lr_plp = \<lambda>y sr h a. Inr a,
      lr_localmax = \<lambda>xs. [False, True, False, True, False]\<rparr>"
  have R: "float64_rounding (\<lambda>x. x)"
    by (simp add: float64_rounding_def)
  have est: "estimate_beats_spectral_flux (\<lambda>x. x) ?L ''clip.wav'' 2
             = Inr ([Fin (1 / 2), Fin (3 / 2)], [0, 1, 0, 1, 0])"
    by (simp add: estimate_beats_spectral_flux_def where_true_def frames_to_time_def
        to_int64_def int64_range_def to_float64_def float64_range_def wrap64_def
        true_divide_def)
  have ld: "lr_load ?L ''clip.wav'' = Inr ([0, 0, 0, 0, 0, 0, 0, 0], 4)"
    by simp
  have pl: "lr_plp ?L [0, 0, 0, 0, 0, 0, 0, 0] 4 2 [0, 1, 0, 1, 0] = Inr [0, 1, 0, 1, 0]"
    by simp
  have hop: "(0 :: int) < 2"
    by simp
  have sr: "(0 :: int) < 4"
    by simp
  have len: "int (length [0, 0, 0, 0, 0, 0, 0, 0 :: real]) < 2 ^ 63"
    by simp
  have frames: "(int (length (lr_localmax ?L [0, 1, 0, 1, 0])) - 1) * 2
                \<le> int (length [0, 0, 0, 0, 0, 0, 0, 0 :: real])"
    by simp
  note times = estimate_beats_spectral_flux_times [OF R est ld pl hop sr len frames]
  from times have sorted: "sorted_wrt np_le [Fin (1 / 2), Fin (3 / 2)]"
    by (elim conjE)
  from times have bounds: "\<forall>t \<in> set [Fin (1 / 2), Fin (3 / 2)].
        np_le (Fin 0) t \<and> np_le t (Fin (track_duration (\<lambda>x. x) [0, 0, 0, 0, 0, 0, 0, 0] 4))"
    by (elim conjE)
  from bounds have first: "np_le (Fin 0) (Fin (1 / 2))"
    by simp
  from bounds have last: "np_le (Fin (3 / 2)) (Fin (track_duration (\<lambda>x. x) [0, 0, 0, 0, 0, 0, 0, 0] 4))"
    by simp
  from R est sorted first last show ?thesis
    by (intro conjI)
qed

subsection \<open>Evaluator\<close>

text \<open>
  C3. \<open>evaluate_estimated_beats\<close> goes through the track identifiers of its first
  argument in order. When every one of them has an entry in the second argument and the
  metric returns a score for it, the result maps each identifier to the F-measure of the
  track's reference beat times and that entry. When an identifier of the first argument
  is absent from the second, the call fails and no result is returned: the entry is not
  skipped. The failure is the lookup error of the first such identifier when the metric
  has returned a score for every track before it; when the metric raises on a track, all
  tracks before it having an entry and a score, the failure is what the metric raised.
\<close>

theorem evaluate_estimated_beats_spec:
  assumes "distinct (dict_keys data)"
  shows "((\<forall>(track_id, t) \<in> set data. \<exists>est s. map_of estimated_beats track_id = Some est
              \<and> f_measure (beats_times t) est = Inr s)
          \<longrightarrow> evaluate_estimated_beats f_measure data estimated_beats
              = Inr (map (\<lambda>(track_id, t).
                       (track_id, projr (f_measure (beats_times t)
                                           (the (map_of estimated_beats track_id))))) data))
       \<and> (\<forall>track_id \<in> set (dict_keys data). map_of estimated_beats track_id = None
          \<longrightarrow> (\<exists>e. evaluate_estimated_beats f_measure data estimated_beats = Inl e))
       \<and> (\<forall>pre track_id t post.
            data = pre @ (track_id, t) # post \<and> map_of estimated_beats track_id = None
            \<and> (\<forall>(k, t') \<in> set pre. \<exists>est s. map_of estimated_beats k = Some est
                  \<and> f_measure (beats_times t') est = Inr s)
          \<longrightarrow> evaluate_estimated_beats f_measure data estimated_beats = Inl (KeyError track_id))
       \<and> (\<forall>pre track_id t post est e.
            data = pre @ (track_id, t) # post \<and> map_of estimated_beats track_id = Some est
            \<and> f_measure (beats_times t) est = Inl e
            \<and> (\<forall>(k, t') \<in> set pre. \<exists>est s. map_of estimated_beats k = Some est
                  \<and> f_measure (beats_times t') est = Inr s)
          \<longrightarrow> evaluate_estimated_beats f_measure data estimated_beats = Inl e)"
proof -
  have dist: "distinct (map fst data)"
    using assms by (simp add: dict_keys_def)
  have lookup: "map_of data k = Some t" if "(k, t) \<in> set data" for k t
    using dist that by (rule map_of_is_SomeI)
  have all: "(\<forall>(track_id, t) \<in> set data. \<exists>est s. map_of estimated_beats track_id = Some est
              \<and> f_measure (beats_times t) est = Inr s)
          \<longrightarrow> evaluate_estimated_beats f_measure data estimated_beats
              = Inr (map (\<lambda>(track_id, t).
                       (track_id, projr (f_measure (beats_times t)
                                           (the (map_of estimated_beats track_id))))) data)"
  proof
    assume ok: "\<forall>(track_id, t) \<in> set data. \<exists>est s. map_of estimated_beats track_id = Some est
              \<and> f_measure (beats_times t) est = Inr s"
    have each: "\<forall>k\<in>set (dict_keys data). \<exists>t est s. map_of data k = Some t
            \<and> map_of estimated_beats k = Some est \<and> f_measure (beats_times t) est = Inr s"
    proof
      fix k assume "k \<in> set (dict_keys data)"
      then obtain t where kt: "(k, t) \<in> set data"
        by (auto simp: dict_keys_def)
      with ok obtain est s where "map_of estimated_beats k = Some est"
        and "f_measure (beats_times t) est = Inr s"
        by fastforce
      with lookup [OF kt] show "\<exists>t est s. map_of data k = Some t
            \<and> map_of estimated_beats k = Some est \<and> f_measure (beats_times t) est = Inr s"
        by (intro exI conjI)
    qed
    have disj: "set (dict_keys data) \<inter> set (dict_keys ([] :: (string \<times> real) list)) = {}"
      by (simp add: dict_keys_def)
    from evaluate_loop_closed [OF assms disj each]
    have "evaluate_estimated_beats f_measure data estimated_beats
          = Inr (map (\<lambda>k. (k, projr (f_measure (beats_times (the (map_of data k)))
                                       (the (map_of estimated_beats k))))) (map fst data))"
      by (simp add: evaluate_estimated_beats_def dict_keys_def)
    also have "map (\<lambda>k. (k, projr (f_measure (beats_times (the (map_of data k)))
                                       (the (map_of estimated_beats k))))) (map fst data)
               = map (\<lambda>(track_id, t).
                       (track_id, projr (f_measure (beats_times t)
                                           (the (map_of estimated_beats track_id))))) data"
      using dist by (rule lookup_keys_map)
    finally show "evaluate_estimated_beats f_measure data estimated_beats
              = Inr (map (\<lambda>(track_id, t).
                       (track_id, projr (f_measure (beats_times t)
                                           (the (map_of estimated_beats track_id))))) data)" .
  qed
  have missing: "\<forall>track_id \<in> set (dict_keys data). map_of estimated_beats track_id = None
          \<longrightarrow> (\<exists>e. evaluate_estimated_beats f_measure data estimated_beats = Inl e)"
  proof (intro ballI impI)
    fix track_id
    assume "track_id \<in> set (dict_keys data)" and "map_of estimated_beats track_id = None"
    then have "\<exists>e. evaluate_loop f_measure data estimated_beats (dict_keys data) [] = Inl e"
      by (rule evaluate_loop_missing)
    then show "\<exists>e. evaluate_estimated_beats f_measure data estimated_beats = Inl e"
      by (simp only: evaluate_estimated_beats_def)
  qed
  have first: "\<forall>pre track_id t post.
            data = pre @ (track_id, t) # post \<and> map_of estimated_beats track_id = None
            \<and> (\<forall>(k, t') \<in> set pre. \<exists>est s. map_of estimated_beats k = Some est
                  \<and> f_measure (beats_times t') est = Inr s)
          \<longrightarrow> evaluate_estimated_beats f_measure data estimated_beats = Inl (KeyError track_id)"
  proof (intro allI impI, elim conjE)
    fix pre :: "(string \<times> track) list" and track_id t and post :: "(string \<times> track) list"
    assume split: "data = pre @ (track_id, t) # post"
      and none: "map_of estimated_beats track_id = None"
      and pre: "\<forall>(k, t') \<in> set pre. \<exists>est s. map_of estimated_beats k = Some est
                  \<and> f_measure (beats_times t') est = Inr s"
    have keys: "dict_keys data = map fst pre @ track_id # map fst post"
      by (simp add: split dict_keys_def)
    have here: "map_of data track_id = Some t"
      by (rule lookup) (simp add: split)
    have before: "\<forall>j\<in>set (map fst pre). \<exists>t est s. map_of data j = Some t
            \<and> map_of estimated_beats j = Some est \<and> f_measure (beats_times t) est = Inr s"
    proof
      fix j assume "j \<in> set (map fst pre)"
      then obtain t' where jt: "(j, t') \<in> set pre"
        by auto
      with pre obtain est s where "map_of estimated_beats j = Some est"
        and "f_measure (beats_times t') est = Inr s"
        by fastforce
      moreover from jt have "map_of data j = Some t'"
        by (intro lookup) (simp add: split)
      ultimately show "\<exists>t est s. map_of data j = Some t
            \<and> map_of estimated_beats j = Some est \<and> f_measure (beats_times t) est = Inr s"
        by (intro exI conjI)
    qed
    from before here none
    have "evaluate_loop f_measure data estimated_beats (map fst pre @ track_id # map fst post) []
          = Inl (KeyError track_id)"
      by (rule evaluate_loop_first_missing)
    then show "evaluate_estimated_beats f_measure data estimated_beats = Inl (KeyError track_id)"
      by (simp only: evaluate_estimated_beats_def keys)
  qed
  have raised: "\<forall>pre track_id t post est e.
            data = pre @ (track_id, t) # post \<and> map_of estimated_beats track_id = Some est
            \<and> f_measure (beats_times t) est = Inl e
            \<and> (\<forall>(k, t') \<in> set pre. \<exists>est s. map_of estimated_beats k = Some est
                  \<and> f_measure (beats_times t') est = Inr s)
          \<longrightarrow> evaluate_estimated_beats f_measure data estimated_beats = Inl e"
  proof (intro allI impI, elim conjE)
    fix pre :: "(string \<times> track) list" and track_id t and post :: "(string \<times> track) list"
      and est e
    assume split: "data = pre @ (track_id, t) # post"
      and some: "map_of estimated_beats track_id = Some est"
      and err: "f_measure (beats_times t) est = Inl e"
      and pre: "\<forall>(k, t') \<in> set pre. \<exists>est s. map_of estimated_beats k = Some est
                  \<and> f_measure (beats_times t') est = Inr s"
    have keys: "dict_keys data = map fst pre @ track_id # map fst post"
      by (simp add: split dict_keys_def)
    have here: "map_of data track_id = Some t"
      by (rule lookup) (simp add: split)
    have before: "\<forall>j\<in>set (map fst pre). \<exists>t est s. map_of data j = Some t
            \<and> map_of estimated_beats j = Some est \<and> f_measure (beats_times t) est = Inr s"
    proof
      fix j assume "j \<in> set (map fst pre)"
      then obtain t' where jt: "(j, t') \<in> set pre"
        by auto
      with pre obtain est' s where "map_of estimated_beats j = Some est'"
        and "f_measure (beats_times t') est' = Inr s"
        by fastforce
      moreover from jt have "map_of data j = Some t'"
        by (intro lookup) (simp add: split)
      ultimately show "\<exists>t est s. map_of data j = Some t
            \<and> map_of estimated_beats j = Some est \<and> f_measure (beats_times t) est = Inr s"
        by (intro exI conjI)
    qed
    from before here some err
    have "evaluate_loop f_measure data estimated_beats (map fst pre @ track_id # map fst post) []
          = Inl e"
      by (rule evaluate_loop_first_raise)
    then show "evaluate_estimated_beats f_measure data estimated_beats = Inl e"
      by (simp only: evaluate_estimated_beats_def keys)
  qed
  from all missing first raised show ?thesis
    by (intro conjI)
qed

theorem evaluate_estimated_beats_spec_witness:
  "distinct (dict_keys [(''a'', \<lparr>beats_times = [1, 2], genre = ''rock'', tempo = 120\<rparr>),
                        (''b'', \<lparr>beats_times = [1, 3], genre = ''jazz'', tempo = 90\<rparr>)])
   \<and> evaluate_estimated_beats (\<lambda>ref est. Inr (if ref = est then 1 else 0))
       [(''a'', \<lparr>beats_times = [1, 2], genre = ''rock'', tempo = 120\<rparr>),
        (''b'', \<lparr>beats_times = [1, 3], genre = ''jazz'', tempo = 90\<rparr>)]
       [(''a'', [1, 2 :: real]), (''b'', [1, 4])]
     = Inr [(''a'', 1), (''b'', 0)]
   \<and> evaluate_estimated_beats (\<lambda>ref est. Inr (if ref = est then 1 else 0))
       [(''a'', \<lparr>beats_times = [1, 2], genre = ''rock'', tempo = 120\<rparr>),
        (''b'', \<lparr>beats_times = [1, 3], genre = ''jazz'', tempo = 90\<rparr>)]
       [(''a'', [1, 2 :: real])]
     = Inl (KeyError ''b'')"
proof -
  let ?a = "\<lparr>beats_times = [1, 2], genre = ''rock'', tempo = 120\<rparr>"
  let ?b = "\<lparr>beats_times = [1, 3], genre = ''jazz'', tempo = 90\<rparr>"
  let ?data = "[(''a'', ?a), (''b'', ?b)]"
  let ?fm = "\<lambda>(ref :: real list) (est :: real list). (Inr (if ref = est then 1 else 0) :: error + real)"
  let ?full = "[(''a'', [1, 2 :: real]), (''b'', [1, 4])]"
  let ?part = "[(''a'', [1, 2 :: real])]"
  have d: "distinct (dict_keys ?data)"
    by (simp add: dict_keys_def)
  have ok: "\<forall>(track_id, t) \<in> set ?data. \<exists>est s. map_of ?full track_id = Some est
              \<and> ?fm (beats_times t) est = Inr s"
    by simp
  from evaluate_estimated_beats_spec [OF d, of ?full ?fm, THEN conjunct1, THEN mp, OF ok]
  have full: "evaluate_estimated_beats ?fm ?data ?full = Inr [(''a'', 1), (''b'', 0)]"
    by simp
  have hyp: "?data = [(''a'', ?a)] @ (''b'', ?b) # [] \<and> map_of ?part ''b'' = None
            \<and> (\<forall>(k, t') \<in> set [(''a'', ?a)]. \<exists>est s. map_of ?part k = Some est
                  \<and> ?fm (beats_times t') est = Inr s)"
    by simp
  from evaluate_estimated_beats_spec [OF d, of ?part ?fm, THEN conjunct2, THEN conjunct2,
      THEN conjunct1, THEN spec, THEN spec, THEN spec, THEN spec, THEN mp, OF hyp]
  have part: "evaluate_estimated_beats ?fm ?data ?part = Inl (KeyError ''b'')" .
  from d full part show ?thesis
    by (intro conjI)
qed

text \<open>
  With a metric that rejects beat times out of order, as the validation of mir_eval does,
  and estimated beats out of order for the first track, the call fails with the metric's
  error although the second track has no estimated beats: the failure is not a lookup
  error.
\<close>

theorem evaluate_estimated_beats_metric_error_counterexample:
  "evaluate_estimated_beats
     (\<lambda>ref est. if sorted est then Inr (if ref = est then 1 else 0)
                 else Inl (LibraryError ''ValueError''))
     [(''a'', \<lparr>beats_times = [1, 2], genre = ''rock'', tempo = 120\<rparr>),
      (''b'', \<lparr>beats_times = [1, 3], genre = ''jazz'', tempo = 90\<rparr>)]
     [(''a'', [2, 1 :: real])]
   = Inl (LibraryError ''ValueError'')"
  by (simp add: evaluate_estimated_beats_def dict_keys_def dict_get_def)

subsection \<open>Aggregator\<close>

text \<open>
  C6. For score and track mappings whose score identifiers are all tracks,
  \<open>split_by_genre\<close> returns a mapping whose keys are the genres of the tracks mapping in
  the order of their first occurrence, each once. Each genre is mapped to the entries of
  the score mapping whose track has that genre, with their scores, and every entry of the
  score mapping is in the sub-mapping of exactly one genre. On three tracks of genres
  rock, rock and jazz there are two keys, and the rock sub-mapping is the two rock tracks
  with their scores.
\<close>

theorem split_by_genre_partition:
  assumes "distinct (dict_keys tracks_dictionary)" and "distinct (dict_keys scores_dictionary)"
    and "set (dict_keys scores_dictionary) \<subseteq> set (dict_keys tracks_dictionary)"
  shows "\<exists>genre_scores. split_by_genre scores_dictionary tracks_dictionary = Inr genre_scores
     \<and> dict_keys genre_scores = first_seen (map (\<lambda>(track_id, t). genre t) tracks_dictionary)
     \<and> distinct (dict_keys genre_scores)
     \<and> set (dict_keys genre_scores) = (\<lambda>(track_id, t). genre t) ` set tracks_dictionary
     \<and> (\<forall>g \<in> set (dict_keys genre_scores).
          map_of genre_scores g = Some (scores_of_genre scores_dictionary tracks_dictionary g))
     \<and> (\<forall>entry \<in> set scores_dictionary.
          \<exists>!g. \<exists>genre_tracks. map_of genre_scores g = Some genre_tracks \<and> entry \<in> set genre_tracks)"
proof -
  let ?genres = "first_seen (map (\<lambda>(track_id, t). genre t) tracks_dictionary)"
  from split_by_genre_result [OF assms] obtain gs
    where res: "split_by_genre scores_dictionary tracks_dictionary = Inr gs"
      and keys: "dict_keys gs = ?genres"
      and look: "\<forall>g. map_of gs g =
            (if g \<in> set ?genres
             then Some (scores_of_genre scores_dictionary tracks_dictionary g) else None)"
    by (elim exE conjE)
  have dist: "distinct (dict_keys gs)"
    by (simp only: keys distinct_first_seen)
  have set: "set (dict_keys gs) = (\<lambda>(track_id, t). genre t) ` set tracks_dictionary"
    by (simp only: keys set_first_seen set_map)
  have sub: "\<forall>g \<in> set (dict_keys gs).
      map_of gs g = Some (scores_of_genre scores_dictionary tracks_dictionary g)"
  proof
    fix g assume "g \<in> set (dict_keys gs)"
    then have "g \<in> set ?genres"
      by (simp only: keys)
    with look show "map_of gs g = Some (scores_of_genre scores_dictionary tracks_dictionary g)"
      by simp
  qed
  have one: "\<forall>entry \<in> set scores_dictionary.
      \<exists>!g. \<exists>genre_tracks. map_of gs g = Some genre_tracks \<and> entry \<in> set genre_tracks"
  proof
    fix entry assume entry: "entry \<in> set scores_dictionary"
    obtain k s where ks: "entry = (k, s)"
      by (cases entry)
    from entry have "fst entry \<in> fst ` set scores_dictionary"
      by (rule imageI)
    then have "k \<in> set (dict_keys scores_dictionary)"
      by (simp add: ks dict_keys_def)
    with assms(3) have "k \<in> set (dict_keys tracks_dictionary)"
      by (rule subsetD)
    then obtain t where t: "map_of tracks_dictionary k = Some t"
      using map_of_keys by fastforce
    then have "(k, t) \<in> set tracks_dictionary"
      by (rule map_of_SomeD)
    then have g: "genre t \<in> set ?genres"
      by (rule genre_in_first_seen)
    have mem: "entry \<in> set (scores_of_genre scores_dictionary tracks_dictionary g) \<longleftrightarrow> g = genre t"
      for g
      using entry by (auto simp: scores_of_genre_def ks t)
    show "\<exists>!g. \<exists>genre_tracks. map_of gs g = Some genre_tracks \<and> entry \<in> set genre_tracks"
    proof (rule ex1I [of _ "genre t"])
      from look g have "map_of gs (genre t)
          = Some (scores_of_genre scores_dictionary tracks_dictionary (genre t))"
        by simp
      moreover have "entry \<in> set (scores_of_genre scores_dictionary tracks_dictionary (genre t))"
        by (simp only: mem)
      ultimately show "\<exists>genre_tracks. map_of gs (genre t) = Some genre_tracks
          \<and> entry \<in> set genre_tracks"
        by (intro exI conjI)
    next
      fix g
      assume "\<exists>genre_tracks. map_of gs g = Some genre_tracks \<and> entry \<in> set genre_tracks"
      then obtain genre_tracks where m: "map_of gs g = Some genre_tracks"
        and e: "entry \<in> set genre_tracks"
        by (elim exE conjE)
      from look have l: "map_of gs g = (if g \<in> set ?genres
             then Some (scores_of_genre scores_dictionary tracks_dictionary g) else None)"
        by (rule spec)
      from m l have "genre_tracks = scores_of_genre scores_dictionary tracks_dictionary g"
        by (simp split: if_splits)
      with e have "entry \<in> set (scores_of_genre scores_dictionary tracks_dictionary g)"
        by simp
      then show "g = genre t"
        by (simp only: mem)
    qed
  qed
  from res keys dist set sub one show ?thesis
    by (intro exI [of _ gs] conjI)
qed

theorem split_by_genre_partition_witness:
  "distinct (dict_keys [(''t1'', \<lparr>beats_times = [], genre = ''rock'', tempo = 120\<rparr>),
                        (''t2'', \<lparr>beats_times = [], genre = ''rock'', tempo = 100\<rparr>),
                        (''t3'', \<lparr>beats_times = [], genre = ''jazz'', tempo = 90\<rparr>)])
   \<and> distinct (dict_keys [(''t1'', 0.5 :: real), (''t2'', 0.75), (''t3'', 0.25)])
   \<and> split_by_genre [(''t1'', 0.5 :: real), (''t2'', 0.75), (''t3'', 0.25)]
       [(''t1'', \<lparr>beats_times = [], genre = ''rock'', tempo = 120\<rparr>),
        (''t2'', \<lparr>beats_times = [], genre = ''rock'', tempo = 100\<rparr>),
        (''t3'', \<lparr>beats_times = [], genre = ''jazz'', tempo = 90\<rparr>)]
     = Inr [(''rock'', [(''t1'', 0.5), (''t2'', 0.75)]), (''jazz'', [(''t3'', 0.25)])]
   \<and> distinct (dict_keys [(''rock'', [(''t1'', 0.5 :: real), (''t2'', 0.75)]), (''jazz'', [(''t3'', 0.25)])])"
proof -
  let ?s = "[(''t1'', 0.5 :: real), (''t2'', 0.75), (''t3'', 0.25)]"
  let ?t = "[(''t1'', \<lparr>beats_times = [], genre = ''rock'', tempo = 120\<rparr>),
             (''t2'', \<lparr>beats_times = [], genre = ''rock'', tempo = 100\<rparr>),
             (''t3'', \<lparr>beats_times = [], genre = ''jazz'', tempo = 90\<rparr>)]"
  let ?r = "[(''rock'', [(''t1'', 0.5 :: real), (''t2'', 0.75)]), (''jazz'', [(''t3'', 0.25)])]"
  have dt: "distinct (dict_keys ?t)"
    by (simp add: dict_keys_def)
  have ds: "distinct (dict_keys ?s)"
    by (simp add: dict_keys_def)
  have sub: "set (dict_keys ?s) \<subseteq> set (dict_keys ?t)"
    by (simp add: dict_keys_def)
  have ev: "split_by_genre ?s ?t = Inr ?r"
    by (simp add: split_by_genre_def dict_keys_def dict_get_def)
  from split_by_genre_partition [OF dt ds sub] obtain gs
    where "split_by_genre ?s ?t = Inr gs" and "distinct (dict_keys gs)"
    by (elim exE conjE)
  with ev have "distinct (dict_keys ?r)"
    by simp
  with dt ds ev show ?thesis
    by (intro conjI)
qed

text \<open>
  C7. When \<open>get_tempo_vs_performance\<close> returns, its two arrays have as many elements as
  the score mapping: element i of the first is the tempo of the track of the i-th entry of
  the score mapping, element i of the second is that entry's score. It returns whenever
  every identifier of the score mapping is a track. On the scores a: 0.5, b: 0.8 with
  tempos a: 120, b: 90 the arrays are 120, 90 and 0.5, 0.8, where 0.8 is the float64
  that Python reads the literal as, \<open>3602879701896397 / 2^52\<close>.
\<close>

theorem get_tempo_vs_performance_spec:
  assumes "distinct (dict_keys scores_dictionary)"
  shows "(set (dict_keys scores_dictionary) \<subseteq> set (dict_keys tracks_dictionary)
          \<longrightarrow> (\<exists>tempo_arr scores_arr.
                 get_tempo_vs_performance scores_dictionary tracks_dictionary
                   = Inr (tempo_arr, scores_arr)))
       \<and> (\<forall>tempo_arr scores_arr.
            get_tempo_vs_performance scores_dictionary tracks_dictionary = Inr (tempo_arr, scores_arr)
            \<longrightarrow> length tempo_arr = length scores_dictionary
              \<and> length scores_arr = length scores_dictionary
              \<and> scores_arr = map snd scores_dictionary
              \<and> (\<forall>i<length scores_dictionary.
                    \<exists>t. map_of tracks_dictionary (fst (scores_dictionary ! i)) = Some t
                      \<and> tempo_arr ! i = tempo t))"
proof -
  let ?tempos = "map (\<lambda>k. tempo (the (map_of tracks_dictionary k))) (dict_keys scores_dictionary)"
  have dist: "distinct (map fst scores_dictionary)"
    using assms by (simp add: dict_keys_def)
  have closed: "get_tempo_vs_performance scores_dictionary tracks_dictionary
          = Inr (?tempos, map snd scores_dictionary)"
    if sub: "set (dict_keys scores_dictionary) \<subseteq> set (dict_keys tracks_dictionary)"
  proof -
    have "map (\<lambda>k. the (map_of scores_dictionary k)) (map fst scores_dictionary)
          = map (\<lambda>(k, v). v) scores_dictionary"
      using dist by (rule lookup_keys_map)
    also have "map (\<lambda>(k, v). v) scores_dictionary = map snd scores_dictionary"
      by (rule map_cong) auto
    finally have snd: "map (\<lambda>k. the (map_of scores_dictionary k)) (dict_keys scores_dictionary)
          = map snd scores_dictionary"
      by (simp only: dict_keys_def)
    have "tempo_loop scores_dictionary tracks_dictionary (dict_keys scores_dictionary) [] []
          = Inr ([] @ ?tempos,
                 [] @ map (\<lambda>k. the (map_of scores_dictionary k)) (dict_keys scores_dictionary))"
      using sub subset_refl by (rule tempo_loop_closed)
    then show ?thesis
      by (simp only: get_tempo_vs_performance_def snd append_Nil)
  qed
  have returns: "set (dict_keys scores_dictionary) \<subseteq> set (dict_keys tracks_dictionary)
          \<longrightarrow> (\<exists>tempo_arr scores_arr.
                 get_tempo_vs_performance scores_dictionary tracks_dictionary
                   = Inr (tempo_arr, scores_arr))"
  proof
    assume "set (dict_keys scores_dictionary) \<subseteq> set (dict_keys tracks_dictionary)"
    then have "get_tempo_vs_performance scores_dictionary tracks_dictionary
          = Inr (?tempos, map snd scores_dictionary)"
      by (rule closed)
    then show "\<exists>tempo_arr scores_arr.
                 get_tempo_vs_performance scores_dictionary tracks_dictionary
                   = Inr (tempo_arr, scores_arr)"
      by (intro exI)
  qed
  have props: "\<forall>tempo_arr scores_arr.
            get_tempo_vs_performance scores_dictionary tracks_dictionary = Inr (tempo_arr, scores_arr)
            \<longrightarrow> length tempo_arr = length scores_dictionary
              \<and> length scores_arr = length scores_dictionary
              \<and> scores_arr = map snd scores_dictionary
              \<and> (\<forall>i<length scores_dictionary.
                    \<exists>t. map_of tracks_dictionary (fst (scores_dictionary ! i)) = Some t
                      \<and> tempo_arr ! i = tempo t)"
  proof (intro allI impI)
    fix tempo_arr :: "real list" and scores_arr :: "real list"
    assume ret: "get_tempo_vs_performance scores_dictionary tracks_dictionary
                 = Inr (tempo_arr, scores_arr)"
    then have "tempo_loop scores_dictionary tracks_dictionary (dict_keys scores_dictionary) [] []
               = Inr (tempo_arr, scores_arr)"
      by (simp only: get_tempo_vs_performance_def)
    then have sub: "set (dict_keys scores_dictionary) \<subseteq> set (dict_keys tracks_dictionary)"
      by (rule tempo_loop_returns)
    from closed [OF sub] ret
    have ta: "tempo_arr = ?tempos" and sa: "scores_arr = map snd scores_dictionary"
      by simp_all
    have l1: "length tempo_arr = length scores_dictionary"
      by (simp add: ta dict_keys_def)
    have l2: "length scores_arr = length scores_dictionary"
      by (simp add: sa)
    have elts: "\<forall>i<length scores_dictionary.
        \<exists>t. map_of tracks_dictionary (fst (scores_dictionary ! i)) = Some t \<and> tempo_arr ! i = tempo t"
    proof (intro allI impI)
      fix i assume i: "i < length scores_dictionary"
      then have "scores_dictionary ! i \<in> set scores_dictionary"
        by (rule nth_mem)
      then have "fst (scores_dictionary ! i) \<in> fst ` set scores_dictionary"
        by (rule imageI)
      then have "fst (scores_dictionary ! i) \<in> set (dict_keys scores_dictionary)"
        by (simp only: dict_keys_def set_map)
      with sub have "fst (scores_dictionary ! i) \<in> set (dict_keys tracks_dictionary)"
        by (rule subsetD)
      then obtain t where t: "map_of tracks_dictionary (fst (scores_dictionary ! i)) = Some t"
        using map_of_keys by fastforce
      from i have "tempo_arr ! i = tempo (the (map_of tracks_dictionary (fst (scores_dictionary ! i))))"
        by (simp add: ta dict_keys_def)
      with t have "tempo_arr ! i = tempo t"
        by simp
      with t show "\<exists>t. map_of tracks_dictionary (fst (scores_dictionary ! i)) = Some t
                      \<and> tempo_arr ! i = tempo t"
        by (intro exI conjI)
    qed
    from l1 l2 sa elts
    show "length tempo_arr = length scores_dictionary
              \<and> length scores_arr = length scores_dictionary
              \<and> scores_arr = map snd scores_dictionary
              \<and> (\<forall>i<length scores_dictionary.
                    \<exists>t. map_of tracks_dictionary (fst (scores_dictionary ! i)) = Some t
                      \<and> tempo_arr ! i = tempo t)"
      by (intro conjI)
  qed
  from returns props show ?thesis
    by (rule conjI)
qed

theorem get_tempo_vs_performance_spec_witness:
  "distinct (dict_keys [(''a'', 0.5 :: real), (''b'', 3602879701896397 / 4503599627370496)])
   \<and> get_tempo_vs_performance [(''a'', 0.5 :: real), (''b'', 3602879701896397 / 4503599627370496)]
       [(''a'', \<lparr>beats_times = [], genre = ''rock'', tempo = 120\<rparr>),
        (''b'', \<lparr>beats_times = [], genre = ''jazz'', tempo = 90\<rparr>)]
     = Inr ([120, 90], [0.5, 3602879701896397 / 4503599627370496])
   \<and> length [120, 90 :: real] = length [(''a'', 0.5 :: real), (''b'', 3602879701896397 / 4503599627370496)]"
proof -
  let ?s = "[(''a'', 0.5 :: real), (''b'', 3602879701896397 / 4503599627370496)]"
  let ?t = "[(''a'', \<lparr>beats_times = [], genre = ''rock'', tempo = 120\<rparr>),
             (''b'', \<lparr>beats_times = [], genre = ''jazz'', tempo = 90\<rparr>)]"
  have d: "distinct (dict_keys ?s)"
    by (simp add: dict_keys_def)
  have ev: "get_tempo_vs_performance ?s ?t = Inr ([120, 90], [0.5, 3602879701896397 / 4503599627370496])"
    by (simp add: get_tempo_vs_performance_def dict_keys_def dict_get_def)
  from get_tempo_vs_performance_spec [OF d, of ?t, THEN conjunct2, rule_format, OF ev]
  have "length [120, 90 :: real] = length ?s"
    by (rule conjunct1)
  with d ev show ?thesis
    by (intro conjI)
qed

text \<open>
  C10. For score and track mappings whose score identifiers are all tracks, a genre of
  the tracks mapping to which no entry of the score mapping belongs is a key of the result
  of \<open>split_by_genre\<close>, mapped to the empty mapping.
\<close>

theorem split_by_genre_empty_genre:
  assumes "distinct (dict_keys tracks_dictionary)" and "distinct (dict_keys scores_dictionary)"
    and "set (dict_keys scores_dictionary) \<subseteq> set (dict_keys tracks_dictionary)"
    and "(track_id, t) \<in> set tracks_dictionary"
    and "\<forall>(k, s) \<in> set scores_dictionary. map_option genre (map_of tracks_dictionary k) \<noteq> Some (genre t)"
  shows "\<exists>genre_scores. split_by_genre scores_dictionary tracks_dictionary = Inr genre_scores
     \<and> genre t \<in> set (dict_keys genre_scores) \<and> map_of genre_scores (genre t) = Some []"
proof -
  let ?genres = "first_seen (map (\<lambda>(track_id, t). genre t) tracks_dictionary)"
  from split_by_genre_result [OF assms(1-3)] obtain gs
    where res: "split_by_genre scores_dictionary tracks_dictionary = Inr gs"
      and keys: "dict_keys gs = ?genres"
      and look: "\<forall>g. map_of gs g =
            (if g \<in> set ?genres
             then Some (scores_of_genre scores_dictionary tracks_dictionary g) else None)"
    by (elim exE conjE)
  from assms(4) have g: "genre t \<in> set ?genres"
    by (rule genre_in_first_seen)
  then have key: "genre t \<in> set (dict_keys gs)"
    by (simp only: keys)
  have empty: "scores_of_genre scores_dictionary tracks_dictionary (genre t) = []"
    using assms(5) by (auto simp: scores_of_genre_def filter_empty_conv)
  from look g have "map_of gs (genre t)
      = Some (scores_of_genre scores_dictionary tracks_dictionary (genre t))"
    by simp
  then have "map_of gs (genre t) = Some []"
    by (simp only: empty)
  with res key show ?thesis
    by (intro exI [of _ gs] conjI)
qed

theorem split_by_genre_empty_genre_witness:
  "distinct (dict_keys [(''t1'', \<lparr>beats_times = [], genre = ''rock'', tempo = 120\<rparr>),
                        (''t3'', \<lparr>beats_times = [], genre = ''jazz'', tempo = 90\<rparr>)])
   \<and> split_by_genre [(''t1'', 0.5 :: real)]
       [(''t1'', \<lparr>beats_times = [], genre = ''rock'', tempo = 120\<rparr>),
        (''t3'', \<lparr>beats_times = [], genre = ''jazz'', tempo = 90\<rparr>)]
     = Inr [(''rock'', [(''t1'', 0.5)]), (''jazz'', [])]
   \<and> map_of [(''rock'', [(''t1'', 0.5 :: real)]), (''jazz'', [])] ''jazz'' = Some []"
proof -
  let ?s = "[(''t1'', 0.5 :: real)]"
  let ?jazz = "\<lparr>beats_times = [], genre = ''jazz'', tempo = 90\<rparr>"
  let ?t = "[(''t1'', \<lparr>beats_times = [], genre = ''rock'', tempo = 120\<rparr>), (''t3'', ?jazz)]"
  let ?r = "[(''rock'', [(''t1'', 0.5 :: real)]), (''jazz'', [])]"
  have dt: "distinct (dict_keys ?t)"
    by (simp add: dict_keys_def)
  have ds: "distinct (dict_keys ?s)"
    by (simp add: dict_keys_def)
  have sub: "set (dict_keys ?s) \<subseteq> set (dict_keys ?t)"
    by (simp add: dict_keys_def)
  have mem: "(''t3'', ?jazz) \<in> set ?t"
    by simp
  have none: "\<forall>(k, s) \<in> set ?s. map_option genre (map_of ?t k) \<noteq> Some (genre ?jazz)"
    by simp
  have ev: "split_by_genre ?s ?t = Inr ?r"
    by (simp add: split_by_genre_def dict_keys_def dict_get_def)
  from split_by_genre_empty_genre [OF dt ds sub mem none] obtain gs
    where "split_by_genre ?s ?t = Inr gs" and "map_of gs (genre ?jazz) = Some []"
    by (elim exE conjE)
  with ev have "map_of ?r ''jazz'' = Some []"
    by simp
  with dt ev show ?thesis
    by (intro conjI)
qed

subsection \<open>Time-axis helpers\<close>

text \<open>
  C4. With a float64 rounding \<open>rnd\<close>: for every novelty curve of length N, every hop
  size H that an int64 holds and every sample rate S that a float64 holds,
  \<open>compute_time_sf\<close> returns an array of length N whose element i is the float64
  quotient of the int64 product \<open>i * H\<close> by \<open>S\<close>. For a non-empty curve and \<open>S\<close> not zero
  the array starts at 0. Where \<open>S\<close> is not zero and \<open>S\<close> and the products are at most
  \<open>2^53\<close> in magnitude, element i is the float64 nearest to \<open>i * H / S\<close>; if moreover H
  and S are positive and N is at most \<open>2^52\<close>, the array is strictly increasing. A hop
  size beyond int64 or a sample rate beyond float64 raises \<open>OverflowError\<close>.
\<close>

theorem compute_time_sf_spec:
  assumes R: "float64_rounding rnd"
  shows "(int64_range H \<and> float64_range S \<longrightarrow>
          (\<exists>time_sf. compute_time_sf rnd novelty_sf H S = Inr time_sf
             \<and> length time_sf = length novelty_sf
             \<and> (\<forall>i<length novelty_sf.
                  time_sf ! i = true_divide rnd (wrap64 (int i * H)) (rnd (real_of_int S)))
             \<and> (S \<noteq> 0 \<and> novelty_sf \<noteq> [] \<longrightarrow> time_sf ! 0 = Fin 0)
             \<and> (S \<noteq> 0 \<and> \<bar>S\<bar> \<le> 2 ^ 53 \<and> (int (length novelty_sf) - 1) * \<bar>H\<bar> \<le> 2 ^ 53 \<longrightarrow>
                  (\<forall>i<length novelty_sf.
                     time_sf ! i = Fin (rnd (real_of_int (int i * H) / real_of_int S))))
             \<and> (0 < H \<and> 0 < S \<and> S \<le> 2 ^ 53 \<and> (int (length novelty_sf) - 1) * H \<le> 2 ^ 53
                  \<and> int (length novelty_sf) \<le> 2 ^ 52 \<longrightarrow> sorted_wrt np_less time_sf)))
       \<and> (\<not> (int64_range H \<and> float64_range S) \<longrightarrow>
            compute_time_sf rnd novelty_sf H S = Inl OverflowError)"
proof -
  let ?n = "length novelty_sf"
  let ?ts = "map (\<lambda>i. true_divide rnd (wrap64 (int i * H)) (rnd (real_of_int S))) [0..<?n]"
  have len: "length ?ts = ?n"
    by simp
  have elt: "\<forall>i<?n. ?ts ! i = true_divide rnd (wrap64 (int i * H)) (rnd (real_of_int S))"
    by simp
  have start: "S \<noteq> 0 \<and> novelty_sf \<noteq> [] \<longrightarrow> ?ts ! 0 = Fin 0"
  proof
    assume "S \<noteq> 0 \<and> novelty_sf \<noteq> []"
    then have S: "S \<noteq> 0" and n: "0 < ?n"
      by simp_all
    from R S have "rnd (real_of_int S) \<noteq> 0"
      by (rule rounding_int_nonzero)
    then have "true_divide rnd (wrap64 (int 0 * H)) (rnd (real_of_int S)) = Fin 0"
      using R by (simp add: true_divide_def wrap64_def rounding_zero)
    with n show "?ts ! 0 = Fin 0"
      by simp
  qed
  have exact: "S \<noteq> 0 \<and> \<bar>S\<bar> \<le> 2 ^ 53 \<and> (int ?n - 1) * \<bar>H\<bar> \<le> 2 ^ 53 \<longrightarrow>
      (\<forall>i<?n. ?ts ! i = Fin (rnd (real_of_int (int i * H) / real_of_int S)))"
  proof (intro impI allI)
    fix i
    assume c: "S \<noteq> 0 \<and> \<bar>S\<bar> \<le> 2 ^ 53 \<and> (int ?n - 1) * \<bar>H\<bar> \<le> 2 ^ 53" and i: "i < ?n"
    from c have S: "S \<noteq> 0" and S53: "\<bar>S\<bar> \<le> 2 ^ 53" and p: "(int ?n - 1) * \<bar>H\<bar> \<le> 2 ^ 53"
      by simp_all
    from i p have "\<bar>int i * H\<bar> \<le> 2 ^ 53"
      by (rule product_bound)
    with R S S53 have "true_divide rnd (wrap64 (int i * H)) (rnd (real_of_int S))
        = Fin (rnd (real_of_int (int i * H) / real_of_int S))"
      by (rule exact_quotient)
    with i show "?ts ! i = Fin (rnd (real_of_int (int i * H) / real_of_int S))"
      by simp
  qed
  have incr: "0 < H \<and> 0 < S \<and> S \<le> 2 ^ 53 \<and> (int ?n - 1) * H \<le> 2 ^ 53 \<and> int ?n \<le> 2 ^ 52
      \<longrightarrow> sorted_wrt np_less ?ts"
  proof
    assume c: "0 < H \<and> 0 < S \<and> S \<le> 2 ^ 53 \<and> (int ?n - 1) * H \<le> 2 ^ 53 \<and> int ?n \<le> 2 ^ 52"
    then have H: "0 < H" and S: "0 < S" and S53: "S \<le> 2 ^ 53"
      and p: "(int ?n - 1) * H \<le> 2 ^ 53" and n: "int ?n \<le> 2 ^ 52"
      by simp_all
    from H p have p': "(int ?n - 1) * \<bar>H\<bar> \<le> 2 ^ 53"
      by simp
    from S S53 have c': "S \<noteq> 0 \<and> \<bar>S\<bar> \<le> 2 ^ 53 \<and> (int ?n - 1) * \<bar>H\<bar> \<le> 2 ^ 53"
      using p' by simp
    from exact c' have ex: "\<forall>i<?n. ?ts ! i = Fin (rnd (real_of_int (int i * H) / real_of_int S))"
      by (rule mp)
    have "np_less (?ts ! i) (?ts ! j)" if ij: "i < j" and j: "j < length ?ts" for i j
    proof -
      from j have jn: "j < ?n"
        by simp
      with ij have "i < ?n"
        by simp
      with ex have ei: "?ts ! i = Fin (rnd (real_of_int (int i * H) / real_of_int S))"
        by (simp only:)
      from ex jn have ej: "?ts ! j = Fin (rnd (real_of_int (int j * H) / real_of_int S))"
        by (simp only:)
      from R H S S53 ij jn p n
      have "rnd (real_of_int (int i * H) / real_of_int S)
            < rnd (real_of_int (int j * H) / real_of_int S)"
        by (rule np_less_rounded_products)
      then show ?thesis
        by (simp only: ei ej np_less.simps)
    qed
    then show "sorted_wrt np_less ?ts"
      by (simp only: sorted_wrt_iff_nth_less) blast
  qed
  have returns: "int64_range H \<and> float64_range S \<longrightarrow>
          (\<exists>time_sf. compute_time_sf rnd novelty_sf H S = Inr time_sf
             \<and> length time_sf = length novelty_sf
             \<and> (\<forall>i<length novelty_sf.
                  time_sf ! i = true_divide rnd (wrap64 (int i * H)) (rnd (real_of_int S)))
             \<and> (S \<noteq> 0 \<and> novelty_sf \<noteq> [] \<longrightarrow> time_sf ! 0 = Fin 0)
             \<and> (S \<noteq> 0 \<and> \<bar>S\<bar> \<le> 2 ^ 53 \<and> (int (length novelty_sf) - 1) * \<bar>H\<bar> \<le> 2 ^ 53 \<longrightarrow>
                  (\<forall>i<length novelty_sf.
                     time_sf ! i = Fin (rnd (real_of_int (int i * H) / real_of_int S))))
             \<and> (0 < H \<and> 0 < S \<and> S \<le> 2 ^ 53 \<and> (int (length novelty_sf) - 1) * H \<le> 2 ^ 53
                  \<and> int (length novelty_sf) \<le> 2 ^ 52 \<longrightarrow> sorted_wrt np_less time_sf))"
  proof
    assume "int64_range H \<and> float64_range S"
    then have "int64_range H" and "float64_range S"
      by simp_all
    then have closed: "compute_time_sf rnd novelty_sf H S = Inr ?ts"
      by (rule compute_time_sf_closed)
    from closed len elt start exact incr
    show "\<exists>time_sf. compute_time_sf rnd novelty_sf H S = Inr time_sf
             \<and> length time_sf = length novelty_sf
             \<and> (\<forall>i<length novelty_sf.
                  time_sf ! i = true_divide rnd (wrap64 (int i * H)) (rnd (real_of_int S)))
             \<and> (S \<noteq> 0 \<and> novelty_sf \<noteq> [] \<longrightarrow> time_sf ! 0 = Fin 0)
             \<and> (S \<noteq> 0 \<and> \<bar>S\<bar> \<le> 2 ^ 53 \<and> (int (length novelty_sf) - 1) * \<bar>H\<bar> \<le> 2 ^ 53 \<longrightarrow>
                  (\<forall>i<length novelty_sf.
                     time_sf ! i = Fin (rnd (real_of_int (int i * H) / real_of_int S))))
             \<and> (0 < H \<and> 0 < S \<and> S \<le> 2 ^ 53 \<and> (int (length novelty_sf) - 1) * H \<le> 2 ^ 53
                  \<and> int (length novelty_sf) \<le> 2 ^ 52 \<longrightarrow> sorted_wrt np_less time_sf)"
      by (intro exI [of _ ?ts] conjI)
  qed
  have fails: "\<not> (int64_range H \<and> float64_range S) \<longrightarrow>
            compute_time_sf rnd novelty_sf H S = Inl OverflowError"
  proof
    assume "\<not> (int64_range H \<and> float64_range S)"
    then show "compute_time_sf rnd novelty_sf H S = Inl OverflowError"
      by (rule compute_time_sf_overflow)
  qed
  from returns fails show ?thesis
    by (rule conjI)
qed

theorem compute_time_sf_spec_witness:
  "float64_rounding (\<lambda>x. x)
   \<and> compute_time_sf (\<lambda>x. x) [0.5, 2, 1] 512 16384 = Inr [Fin 0, Fin (1 / 32), Fin (1 / 16)]
   \<and> sorted_wrt np_less [Fin 0, Fin (1 / 32), Fin (1 / 16)]
   \<and> compute_time_sf (\<lambda>x. x) [0.5, 2, 1] (2 ^ 63) 16384 = Inl OverflowError"
proof -
  let ?nov = "[0.5, 2, 1 :: real]"
  have R: "float64_rounding (\<lambda>x. x)"
    by (simp add: float64_rounding_def)
  have ev: "compute_time_sf (\<lambda>x. x) ?nov 512 16384 = Inr [Fin 0, Fin (1 / 32), Fin (1 / 16)]"
    by (simp add: compute_time_sf_def to_int64_def int64_range_def to_float64_def
        float64_range_def arange_def wrap64_def true_divide_def)
  have range: "int64_range 512 \<and> float64_range 16384"
    by (simp add: int64_range_def float64_range_def)
  have cond: "(0 :: int) < 512 \<and> (0 :: int) < 16384 \<and> (16384 :: int) \<le> 2 ^ 53
      \<and> (int (length ?nov) - 1) * 512 \<le> 2 ^ 53 \<and> int (length ?nov) \<le> 2 ^ 52"
    by simp
  from compute_time_sf_spec [OF R, of 512 16384 ?nov, THEN conjunct1, THEN mp, OF range]
  obtain time_sf where ret: "compute_time_sf (\<lambda>x. x) ?nov 512 16384 = Inr time_sf"
    and inc: "(0 :: int) < 512 \<and> (0 :: int) < 16384 \<and> (16384 :: int) \<le> 2 ^ 53
      \<and> (int (length ?nov) - 1) * 512 \<le> 2 ^ 53 \<and> int (length ?nov) \<le> 2 ^ 52
      \<longrightarrow> sorted_wrt np_less time_sf"
    by (elim exE conjE)
  from inc cond have "sorted_wrt np_less time_sf"
    by (rule mp)
  moreover from ret ev have "time_sf = [Fin 0, Fin (1 / 32), Fin (1 / 16)]"
    by simp
  ultimately have sorted: "sorted_wrt np_less [Fin 0, Fin (1 / 32), Fin (1 / 16)]"
    by simp
  have out: "\<not> (int64_range (2 ^ 63) \<and> float64_range 16384)"
    by (simp add: int64_range_def)
  from compute_time_sf_spec [OF R, of "2 ^ 63" 16384 ?nov, THEN conjunct2, THEN mp, OF out]
  have over: "compute_time_sf (\<lambda>x. x) ?nov (2 ^ 63) 16384 = Inl OverflowError" .
  from R ev sorted over show ?thesis
    by (intro conjI)
qed

theorem compute_time_sf_zero_hop_counterexample:
  "compute_time_sf (\<lambda>x. x) [0.5, 2] 0 22050 = Inr [Fin 0, Fin 0]
   \<and> \<not> sorted_wrt np_less [Fin 0, Fin 0]"
  by (simp add: compute_time_sf_def to_int64_def int64_range_def to_float64_def
      float64_range_def arange_def wrap64_def true_divide_def)

text \<open>
  C5. With a float64 rounding \<open>rnd\<close>: for every novelty curve of length N and every rate
  R that a float64 holds, \<open>compute_time_ml\<close> returns an array of length N whose element
  i is the float64 quotient of \<open>i\<close> by \<open>R\<close>. For R not zero, with R and N at most \<open>2^53\<close>
  in magnitude, that is the float64 nearest to \<open>i / R\<close>, as for the default rate 100. For
  R zero, element 0 is \<open>nan\<close> and the others are \<open>inf\<close>. A rate beyond float64 raises
  \<open>OverflowError\<close>.
\<close>

theorem compute_time_ml_spec:
  assumes R: "float64_rounding rnd"
  shows "(float64_range R \<longrightarrow>
          (\<exists>time_ml. compute_time_ml rnd novelty_ml R = Inr time_ml
             \<and> length time_ml = length novelty_ml
             \<and> (\<forall>i<length novelty_ml.
                  time_ml ! i = true_divide rnd (int i) (rnd (real_of_int R)))
             \<and> (R \<noteq> 0 \<and> \<bar>R\<bar> \<le> 2 ^ 53 \<and> int (length novelty_ml) \<le> 2 ^ 53 \<longrightarrow>
                  (\<forall>i<length novelty_ml. time_ml ! i = Fin (rnd (real i / real_of_int R))))
             \<and> (R = 0 \<longrightarrow>
                  (\<forall>i<length novelty_ml. time_ml ! i = (if i = 0 then NaN else PosInf)))))
       \<and> (\<not> float64_range R \<longrightarrow> compute_time_ml rnd novelty_ml R = Inl OverflowError)
       \<and> (int (length novelty_ml) \<le> 2 ^ 53 \<longrightarrow>
            compute_time_ml rnd novelty_ml sr_ml_default
            = Inr (map (\<lambda>i. Fin (rnd (real i / 100))) [0..<length novelty_ml]))"
proof -
  let ?n = "length novelty_ml"
  let ?tm = "map (\<lambda>i. true_divide rnd (int i) (rnd (real_of_int R))) [0..<?n]"
  have len: "length ?tm = ?n"
    by simp
  have elt: "\<forall>i<?n. ?tm ! i = true_divide rnd (int i) (rnd (real_of_int R))"
    by simp
  have quot: "true_divide rnd (int i) (rnd (real_of_int r)) = Fin (rnd (real i / real_of_int r))"
    if "r \<noteq> 0" and "\<bar>r\<bar> \<le> 2 ^ 53" and "i < m" and "int m \<le> 2 ^ 53" for i m and r :: int
  proof -
    from that(3,4) have "\<bar>int i\<bar> \<le> 2 ^ 53"
      by simp
    with R that(1,2) have "true_divide rnd (wrap64 (int i)) (rnd (real_of_int r))
        = Fin (rnd (real_of_int (int i) / real_of_int r))"
      by (rule exact_quotient)
    moreover from \<open>\<bar>int i\<bar> \<le> 2 ^ 53\<close> have "wrap64 (int i) = int i"
      by (intro wrap64_id small_int64)
    ultimately show ?thesis
      by simp
  qed
  have exact: "R \<noteq> 0 \<and> \<bar>R\<bar> \<le> 2 ^ 53 \<and> int ?n \<le> 2 ^ 53 \<longrightarrow>
      (\<forall>i<?n. ?tm ! i = Fin (rnd (real i / real_of_int R)))"
  proof (intro impI allI)
    fix i
    assume c: "R \<noteq> 0 \<and> \<bar>R\<bar> \<le> 2 ^ 53 \<and> int ?n \<le> 2 ^ 53" and i: "i < ?n"
    then have "true_divide rnd (int i) (rnd (real_of_int R)) = Fin (rnd (real i / real_of_int R))"
      by (intro quot [of R i ?n]) simp_all
    with i show "?tm ! i = Fin (rnd (real i / real_of_int R))"
      by simp
  qed
  have zero: "R = 0 \<longrightarrow> (\<forall>i<?n. ?tm ! i = (if i = 0 then NaN else PosInf))"
  proof (intro impI allI)
    fix i
    assume R0: "R = 0" and i: "i < ?n"
    have "true_divide rnd (int i) (rnd 0) = (if i = 0 then NaN else PosInf)"
    proof (cases "i = 0")
      case True
      with R show ?thesis
        by (simp add: true_divide_def rounding_zero)
    next
      case False
      then have "1 \<le> int i"
        by simp
      with R have "1 \<le> rnd (real_of_int (int i))"
        by (rule rounding_int_ge_1)
      with R False show ?thesis
        by (simp add: true_divide_def rounding_zero)
    qed
    with i R0 show "?tm ! i = (if i = 0 then NaN else PosInf)"
      by simp
  qed
  have returns: "float64_range R \<longrightarrow>
          (\<exists>time_ml. compute_time_ml rnd novelty_ml R = Inr time_ml
             \<and> length time_ml = length novelty_ml
             \<and> (\<forall>i<length novelty_ml.
                  time_ml ! i = true_divide rnd (int i) (rnd (real_of_int R)))
             \<and> (R \<noteq> 0 \<and> \<bar>R\<bar> \<le> 2 ^ 53 \<and> int (length novelty_ml) \<le> 2 ^ 53 \<longrightarrow>
                  (\<forall>i<length novelty_ml. time_ml ! i = Fin (rnd (real i / real_of_int R))))
             \<and> (R = 0 \<longrightarrow>
                  (\<forall>i<length novelty_ml. time_ml ! i = (if i = 0 then NaN else PosInf))))"
  proof
    assume "float64_range R"
    then have closed: "compute_time_ml rnd novelty_ml R = Inr ?tm"
      by (rule compute_time_ml_closed)
    from closed len elt exact zero
    show "\<exists>time_ml. compute_time_ml rnd novelty_ml R = Inr time_ml
             \<and> length time_ml = length novelty_ml
             \<and> (\<forall>i<length novelty_ml.
                  time_ml ! i = true_divide rnd (int i) (rnd (real_of_int R)))
             \<and> (R \<noteq> 0 \<and> \<bar>R\<bar> \<le> 2 ^ 53 \<and> int (length novelty_ml) \<le> 2 ^ 53 \<longrightarrow>
                  (\<forall>i<length novelty_ml. time_ml ! i = Fin (rnd (real i / real_of_int R))))
             \<and> (R = 0 \<longrightarrow>
                  (\<forall>i<length novelty_ml. time_ml ! i = (if i = 0 then NaN else PosInf)))"
      by (intro exI [of _ ?tm] conjI)
  qed
  have fails: "\<not> float64_range R \<longrightarrow> compute_time_ml rnd novelty_ml R = Inl OverflowError"
  proof
    assume "\<not> float64_range R"
    then show "compute_time_ml rnd novelty_ml R = Inl OverflowError"
      by (rule compute_time_ml_overflow)
  qed
  have default: "int ?n \<le> 2 ^ 53 \<longrightarrow>
      compute_time_ml rnd novelty_ml sr_ml_default
      = Inr (map (\<lambda>i. Fin (rnd (real i / 100))) [0..<?n])"
  proof
    assume n: "int ?n \<le> 2 ^ 53"
    have "float64_range 100"
      by (simp add: float64_range_def)
    then have "compute_time_ml rnd novelty_ml 100
        = Inr (map (\<lambda>i. true_divide rnd (int i) (rnd (real_of_int 100))) [0..<?n])"
      by (rule compute_time_ml_closed)
    moreover have "map (\<lambda>i. true_divide rnd (int i) (rnd (real_of_int 100))) [0..<?n]
        = map (\<lambda>i. Fin (rnd (real i / 100))) [0..<?n]"
    proof (rule map_cong [OF refl])
      fix i assume "i \<in> set [0..<?n]"
      then have "i < ?n"
        by simp
      with n have "true_divide rnd (int i) (rnd (real_of_int 100))
          = Fin (rnd (real i / real_of_int 100))"
        by (intro quot [of 100 i ?n]) simp_all
      then show "true_divide rnd (int i) (rnd (real_of_int 100)) = Fin (rnd (real i / 100))"
        by simp
    qed
    ultimately show "compute_time_ml rnd novelty_ml sr_ml_default
        = Inr (map (\<lambda>i. Fin (rnd (real i / 100))) [0..<?n])"
      by (simp only: sr_ml_default_def)
  qed
  from returns fails default show ?thesis
    by (intro conjI)
qed

theorem compute_time_ml_spec_witness:
  "float64_rounding (\<lambda>x. x)
   \<and> compute_time_ml (\<lambda>x. x) [0.5, 2, 1] 8 = Inr [Fin 0, Fin (1 / 8), Fin (1 / 4)]
   \<and> length [Fin 0, Fin (1 / 8), Fin (1 / 4)] = length [0.5, 2, 1 :: real]
   \<and> compute_time_ml (\<lambda>x. x) [0.5, 2, 1] (2 ^ 1024) = Inl OverflowError"
proof -
  let ?nov = "[0.5, 2, 1 :: real]"
  have R: "float64_rounding (\<lambda>x. x)"
    by (simp add: float64_rounding_def)
  have ev: "compute_time_ml (\<lambda>x. x) ?nov 8 = Inr [Fin 0, Fin (1 / 8), Fin (1 / 4)]"
    by (simp add: compute_time_ml_def to_float64_def float64_range_def arange_def
        true_divide_def)
  have range: "float64_range 8"
    by (simp add: float64_range_def)
  from compute_time_ml_spec [OF R, of 8 ?nov, THEN conjunct1, THEN mp, OF range]
  obtain time_ml where ret: "compute_time_ml (\<lambda>x. x) ?nov 8 = Inr time_ml"
    and len: "length time_ml = length ?nov"
    by (elim exE conjE)
  from ret ev have "time_ml = [Fin 0, Fin (1 / 8), Fin (1 / 4)]"
    by simp
  with len have len': "length [Fin 0, Fin (1 / 8), Fin (1 / 4)] = length ?nov"
    by simp
  have out: "\<not> float64_range (2 ^ 1024)"
    by (simp add: float64_range_def)
  from compute_time_ml_spec [OF R, of "2 ^ 1024" ?nov, THEN conjunct2, THEN conjunct1, THEN mp, OF out]
  have over: "compute_time_ml (\<lambda>x. x) ?nov (2 ^ 1024) = Inl OverflowError" .
  from R ev len' over show ?thesis
    by (intro conjI)
qed

theorem compute_time_ml_zero_rate_counterexample:
  "compute_time_ml (\<lambda>x. x) [0.5, 2, 1] 0 = Inr [NaN, PosInf, PosInf]"
  by (simp add: compute_time_ml_def to_float64_def float64_range_def arange_def
      true_divide_def)

subsection \<open>Sonifier\<close>

text \<open>
  C9. \<open>sonify_track_data\<close> is a no-op: for every track identifier, estimated-beats mapping
  and tracks mapping it returns \<open>None\<close> and leaves the display as it was.
\<close>

theorem sonify_track_data_noop:
  "sonify_track_data track_id estimated_beats tracks_dictionary display = ((), display)"
  by (simp add: sonify_track_data_def)

end
